theory Spec2Isabelle
  imports Main
begin

section \<open>JavaScript strings\<close>

text \<open>
  The source is TypeScript. A JavaScript string is a sequence of code units; it is modelled
  as a \<^typ>\<open>string\<close>, one \<^typ>\<open>char\<close> per code unit. The scanner compares code units
  with the marker, space, tab, line feed and full stop only.

  Reading a string out of range does not fail in JavaScript: \<^verbatim>\<open>s[i]\<close> is
  \<^verbatim>\<open>undefined\<close> and \<^verbatim>\<open>s.charCodeAt(i)\<close> is \<^verbatim>\<open>NaN\<close>; both differ from every
  character, which \<^term>\<open>None\<close> models.
\<close>

definition charAt :: "string \<Rightarrow> nat \<Rightarrow> char option" where
  "charAt s i = (if i < length s then Some (s ! i) else None)"

text \<open>
  \<^verbatim>\<open>String.prototype.slice(from, to)\<close>: a negative index counts from the end, and both
  indices are clamped to the string.
\<close>

definition js_slice :: "string \<Rightarrow> int \<Rightarrow> int \<Rightarrow> string" where
  "js_slice s b e =
     (let len = int (length s);
          from = (if b < 0 then max (len + b) 0 else min b len);
          to = (if e < 0 then max (len + e) 0 else min e len)
      in take (nat (to - from)) (drop (nat from) s))"

text \<open>\<^verbatim>\<open>Array.prototype.join\<close> on an array of strings.\<close>

fun join :: "string \<Rightarrow> string list \<Rightarrow> string" where
  "join sep [] = []"
| "join sep [x] = x"
| "join sep (x # y # ys) = x @ sep @ join sep (y # ys)"

section \<open>The block parser's state\<close>

text \<open>
  \<^verbatim>\<open>Token\<close> and \<^verbatim>\<open>StateBlock\<close> are classes of the markdown-it library, which the
  plugin imports. The records hold the fields the plugin reads or writes. Offsets and
  line numbers are natural numbers; \<^verbatim>\<open>sCount\<close> and \<^verbatim>\<open>blkIndent\<close> are integers, since
  the parser's container rules subtract from them. The four line tables have an entry
  for every line and one more after the last line; the block parser calls a rule with a
  start line and an end line within them, and the model reads the tables at such line
  numbers only (a read outside an array would give \<^verbatim>\<open>undefined\<close> in JavaScript).
\<close>

record token =
  ttype :: string
  tag :: string
  nesting :: int
  level :: int
  content :: string
  markup :: string
  info :: string
  tmap :: "(nat \<times> nat) option"
  meta :: "string option"
  block :: bool
  hidden :: bool

record state_block =
  src :: string
  bMarks :: "nat list"
  eMarks :: "nat list"
  tShift :: "nat list"
  sCount :: "int list"
  blkIndent :: int
  line :: nat
  lineMax :: nat
  parentType :: string
  slevel :: int
  tokens :: "token list"

text \<open>
  Modelled from the spec: \<^verbatim>\<open>isSpace\<close>, \<^verbatim>\<open>StateBlock.skipSpaces\<close> and
  \<^verbatim>\<open>StateBlock.push\<close> belong to markdown-it and are not in this repository. The spec
  asks that the characters after a closing run be whitespace only; \<^verbatim>\<open>skipSpaces\<close>
  moves a position forward over spaces and tabs, up to the end of the source, and
  \<^verbatim>\<open>push\<close> appends a fresh block token of the given type at the state's nesting level.
\<close>

definition isSpace :: "char \<Rightarrow> bool" where
  "isSpace c = (c = CHR 0x09 \<or> c = CHR 0x20)"

fun skipSpacesFrom :: "string \<Rightarrow> nat \<Rightarrow> nat" where
  "skipSpacesFrom [] pos = pos"
| "skipSpacesFrom (c # cs) pos = (if isSpace c then skipSpacesFrom cs (pos + 1) else pos)"

definition skipSpaces :: "state_block \<Rightarrow> nat \<Rightarrow> nat" where
  "skipSpaces st pos = skipSpacesFrom (drop pos (src st)) pos"

definition push :: "state_block \<Rightarrow> string \<Rightarrow> string \<Rightarrow> int \<Rightarrow> token \<times> state_block" where
  "push st ty tg nest =
     (let lvl = (if nest < 0 then slevel st - 1 else slevel st);
          tok = \<lparr> ttype = ty, tag = tg, nesting = nest, level = lvl, content = [],
                  markup = [], info = [], tmap = None, meta = None, block = True,
                  hidden = False \<rparr>
      in (tok, st \<lparr> slevel := (if nest > 0 then lvl + 1 else lvl),
                     tokens := tokens st @ [tok] \<rparr>))"

text \<open>
  Modelled from the spec: the constructor of \<^verbatim>\<open>StateBlock\<close> (markdown-it) builds the
  line table of the source buffer: for each line its starting offset, its ending offset
  (the offset of the line feed, or the length of the source), the number of leading
  whitespace characters and the indent with tabs expanded to multiples of four. One more
  entry, at the length of the source, follows the last line.
\<close>

function lineTable ::
  "string \<Rightarrow> nat \<Rightarrow> nat \<Rightarrow> nat \<Rightarrow> nat \<Rightarrow> bool \<Rightarrow> (nat \<times> nat \<times> nat \<times> int) list" where
  "lineTable s pos start indent offset indent_found =
     (if pos < length s then
        (if \<not> indent_found \<and> isSpace (s ! pos) then
           lineTable s (pos + 1) start (indent + 1)
             (if s ! pos = CHR 0x09 then offset + 4 - offset mod 4 else offset + 1) False
         else if s ! pos = CHR 0x0A then
           (start, pos, indent, int offset) # lineTable s (pos + 1) (pos + 1) 0 0 False
         else if pos = length s - 1 then
           (start, pos + 1, indent, int offset) # lineTable s (pos + 2) (pos + 2) 0 0 False
         else lineTable s (pos + 1) start indent offset True)
      else [])"
  by pat_completeness auto
termination
  by (relation "measure (\<lambda>(s, pos, start, indent, offset, found). length s - pos)") auto

declare lineTable.simps [simp del]

definition StateBlock :: "string \<Rightarrow> state_block" where
  "StateBlock s =
     (let tbl = lineTable s 0 0 0 0 False in
      \<lparr> src = s,
        bMarks = map fst tbl @ [length s],
        eMarks = map (fst \<circ> snd) tbl @ [length s],
        tShift = map (fst \<circ> snd \<circ> snd) tbl @ [0],
        sCount = map (snd \<circ> snd \<circ> snd) tbl @ [0],
        blkIndent = 0, line = 0, lineMax = length tbl,
        parentType = ''root'', slevel = 0, tokens = [] \<rparr>)"

section \<open>The front-matter block rule\<close>

text \<open>The constants of \<^verbatim>\<open>markdownitFrontMatterPlugin\<close>.\<close>

definition min_markers :: nat where
  "min_markers = 3"

definition marker_str :: string where
  "marker_str = ''-''"

definition marker_char :: char where
  "marker_char = marker_str ! 0"

definition marker_len :: nat where
  "marker_len = length marker_str"

text \<open>
  The two loops that count a marker run (the opening fence and a candidate closing line)
  are the same loop: from \<open>pos\<close>, while \<open>pos \<le> max\<close>, stop at the first character that
  is not the marker's. The result is the final \<open>pos\<close> and whether the loop left through
  \<^verbatim>\<open>break\<close>.
\<close>

function markerRun :: "string \<Rightarrow> nat \<Rightarrow> nat \<Rightarrow> nat \<Rightarrow> nat \<times> bool" where
  "markerRun s start mx pos =
     (if pos \<le> mx then
        (if Some (marker_str ! ((pos - start) mod marker_len)) \<noteq> charAt s pos
         then (pos, True)
         else markerRun s start mx (pos + 1))
      else (pos, False))"
  by pat_completeness auto
termination
  by (relation "measure (\<lambda>(s, start, mx, pos). Suc mx - pos)") auto

declare markerRun.simps [simp del]

text \<open>
  What the body loop carries from one line to the next, and what it leaves behind:
  \<^verbatim>\<open>auto_closed\<close> is the flag the source sets when it finds a closing fence.
\<close>

record scan =
  nextLine :: nat
  start :: nat
  max_pos :: nat
  pos :: nat
  auto_closed :: bool

text \<open>
  The checks of one candidate line (the part of the loop body after the test for a
  negative indent): the result is whether the line closes the block, and the value of
  \<open>pos\<close> after the checks.
\<close>

definition fenceCheck :: "state_block \<Rightarrow> nat \<Rightarrow> nat \<Rightarrow> nat \<Rightarrow> nat \<Rightarrow> nat \<Rightarrow> bool \<times> nat" where
  "fenceCheck st marker_count ln strt mx p =
     (if Some marker_char \<noteq> charAt (src st) strt then (False, p)
      else if sCount st ! ln - blkIndent st \<ge> 4 then (False, p)
      else
        (let p1 = fst (markerRun (src st) strt mx (strt + 1)) in
         if (p1 - strt) div marker_len < marker_count then (False, p1)
         else
           (let p2 = skipSpaces st (p1 - (p1 - strt) mod marker_len) in
            if p2 < mx then (False, p2) else (True, p2))))"

function scanBody :: "state_block \<Rightarrow> nat \<Rightarrow> nat \<Rightarrow> scan \<Rightarrow> scan" where
  "scanBody st endLine marker_count sc =
     (if nextLine sc + 1 \<ge> endLine then sc \<lparr> nextLine := nextLine sc + 1 \<rparr>
      else if js_slice (src st) (int (start sc)) (int (max_pos sc)) = ''...''
      then sc \<lparr> nextLine := nextLine sc + 1 \<rparr>
      else if bMarks st ! (nextLine sc + 1) + tShift st ! (nextLine sc + 1)
                < eMarks st ! (nextLine sc + 1)
              \<and> sCount st ! (nextLine sc + 1) < blkIndent st
      then sc \<lparr> nextLine := nextLine sc + 1,
                start := bMarks st ! (nextLine sc + 1) + tShift st ! (nextLine sc + 1),
                max_pos := eMarks st ! (nextLine sc + 1) \<rparr>
      else if fst (fenceCheck st marker_count (nextLine sc + 1)
                     (bMarks st ! (nextLine sc + 1) + tShift st ! (nextLine sc + 1))
                     (eMarks st ! (nextLine sc + 1)) (pos sc))
      then \<lparr> nextLine = nextLine sc + 1,
             start = bMarks st ! (nextLine sc + 1) + tShift st ! (nextLine sc + 1),
             max_pos = eMarks st ! (nextLine sc + 1),
             pos = snd (fenceCheck st marker_count (nextLine sc + 1)
                     (bMarks st ! (nextLine sc + 1) + tShift st ! (nextLine sc + 1))
                     (eMarks st ! (nextLine sc + 1)) (pos sc)),
             auto_closed = True \<rparr>
      else scanBody st endLine marker_count
             \<lparr> nextLine = nextLine sc + 1,
               start = bMarks st ! (nextLine sc + 1) + tShift st ! (nextLine sc + 1),
               max_pos = eMarks st ! (nextLine sc + 1),
               pos = snd (fenceCheck st marker_count (nextLine sc + 1)
                     (bMarks st ! (nextLine sc + 1) + tShift st ! (nextLine sc + 1))
                     (eMarks st ! (nextLine sc + 1)) (pos sc)),
               auto_closed = auto_closed sc \<rparr>)"
  by pat_completeness auto
termination
  by (relation "measure (\<lambda>(st, endLine, marker_count, sc). endLine - nextLine sc)") auto

declare scanBody.simps [simp del]

text \<open>
  The end of \<^verbatim>\<open>frontMatter\<close>, after the body loop: the parent type and the line bound
  are saved and narrowed, the token is pushed and filled in, and the saved values are
  put back. \<open>sc\<close> holds the loop's variables and \<open>start_content\<close> is the offset after the
  opening line, when the opening loop left through \<^verbatim>\<open>break\<close>. The result is the returned
  boolean, the state, and the arguments of the calls of the optional callback \<^verbatim>\<open>cb\<close>
  (made when one is registered).
\<close>

definition emitToken ::
  "state_block \<Rightarrow> nat \<Rightarrow> nat option \<Rightarrow> scan \<Rightarrow> bool \<times> state_block \<times> string option list" where
  "emitToken st startLine start_content sc =
     (let old_parent = parentType st;
          old_line_max = lineMax st;
          st1 = st \<lparr> parentType := ''root'', lineMax := nextLine sc \<rparr>;
          pushed = push st1 ''front_matter'' [] 0;
          tok = (fst pushed)
            \<lparr> hidden := True,
              markup := js_slice (src st) (int startLine) (int (pos sc)),
              block := True,
              tmap := Some (startLine, pos sc),
              meta := Some (js_slice (src st)
                        (case start_content of None \<Rightarrow> 0 | Some c \<Rightarrow> int c)
                        (int (start sc) - 1)) \<rparr>;
          st2 = (snd pushed) \<lparr> tokens := butlast (tokens (snd pushed)) @ [tok] \<rparr>;
          st3 = st2 \<lparr> parentType := old_parent, lineMax := old_line_max,
                      line := nextLine sc + (if auto_closed sc then 1 else 0) \<rparr>
      in (True, st3, [meta tok]))"

text \<open>\<^verbatim>\<open>frontMatter(state, startLine, endLine, silent)\<close>.\<close>

definition frontMatter ::
  "state_block \<Rightarrow> nat \<Rightarrow> nat \<Rightarrow> bool \<Rightarrow> bool \<times> state_block \<times> string option list" where
  "frontMatter st startLine endLine silent =
     (let start0 = bMarks st ! startLine + tShift st ! startLine;
          max0 = eMarks st ! startLine
      in
      if startLine \<noteq> 0 \<or> Some marker_char \<noteq> charAt (src st) 0 then (False, st, [])
      else
        (let run = markerRun (src st) start0 max0 (start0 + 1);
             start_content = (if snd run then Some (fst run + 1) else None);
             marker_count = (fst run - start0) div marker_len
         in
         if marker_count < min_markers then (False, st, [])
         else if silent then (True, st, [])
         else
           emitToken st startLine start_content
             (scanBody st endLine marker_count
                \<lparr> nextLine = startLine, start = start0, max_pos = max0,
                  pos = fst run - (fst run - start0) mod marker_len,
                  auto_closed = False \<rparr>)))"

section \<open>JavaScript values\<close>

text \<open>
  The values that \<^verbatim>\<open>yaml.load\<close> returns and the renderer inspects with
  \<^verbatim>\<open>typeof\<close>, \<^verbatim>\<open>Array.isArray\<close>, truthiness tests and property reads. An object
  is the list of its own properties in insertion order. A number is an integer or
  \<^verbatim>\<open>NaN\<close>: the code tests numbers for truthiness only.
\<close>

datatype jsval =
  JUndefined
| JNull
| JBool bool
| JNum int
| JNaN
| JStr string
| JArr "jsval list"
| JObj "(string \<times> jsval) list"

datatype error = TypeError | YAMLException

definition bindE :: "error + 'a \<Rightarrow> ('a \<Rightarrow> error + 'b) \<Rightarrow> error + 'b" where
  "bindE m f = (case m of Inl e \<Rightarrow> Inl e | Inr x \<Rightarrow> f x)"

fun typeof :: "jsval \<Rightarrow> string" where
  "typeof JUndefined = ''undefined''"
| "typeof JNull = ''object''"
| "typeof (JBool b) = ''boolean''"
| "typeof (JNum n) = ''number''"
| "typeof JNaN = ''number''"
| "typeof (JStr s) = ''string''"
| "typeof (JArr xs) = ''object''"
| "typeof (JObj kvs) = ''object''"

fun truthy :: "jsval \<Rightarrow> bool" where
  "truthy JUndefined = False"
| "truthy JNull = False"
| "truthy (JBool b) = b"
| "truthy (JNum n) = (n \<noteq> 0)"
| "truthy JNaN = False"
| "truthy (JStr s) = (s \<noteq> [])"
| "truthy (JArr xs) = True"
| "truthy (JObj kvs) = True"

text \<open>
  A property read \<^verbatim>\<open>v[key]\<close>. Reading a property of \<^verbatim>\<open>null\<close> or \<^verbatim>\<open>undefined\<close>
  throws a TypeError. The keys the code reads (title, subtitle, abstract, date,
  date-modified, doi, author, authors, affiliation, affiliations, name, orcid) are
  properties of no array, number, boolean or string, so the read gives
  \<^verbatim>\<open>undefined\<close> there.
\<close>

fun getProp :: "jsval \<Rightarrow> string \<Rightarrow> error + jsval" where
  "getProp JUndefined key = Inl TypeError"
| "getProp JNull key = Inl TypeError"
| "getProp (JObj kvs) key = Inr (case map_of kvs key of None \<Rightarrow> JUndefined | Some v \<Rightarrow> v)"
| "getProp v key = Inr JUndefined"

text \<open>\<^verbatim>\<open>delete v[key]\<close>, on a value that is not \<^verbatim>\<open>null\<close> or \<^verbatim>\<open>undefined\<close>.\<close>

fun deleteProp :: "jsval \<Rightarrow> string \<Rightarrow> jsval" where
  "deleteProp (JObj kvs) key = JObj (filter (\<lambda>kv. fst kv \<noteq> key) kvs)"
| "deleteProp v key = v"

text \<open>The truthiness of a value of type \<^verbatim>\<open>string | undefined\<close>.\<close>

fun truthyStr :: "string option \<Rightarrow> bool" where
  "truthyStr None = False"
| "truthyStr (Some s) = (s \<noteq> [])"

section \<open>Authors\<close>

record author =
  name :: string
  affil :: "string list option"
  orcid :: "string option"

text \<open>The closure \<^verbatim>\<open>str(key, defaultValue)\<close> of \<^verbatim>\<open>parseAuthor\<close>, over \<^verbatim>\<open>authorRaw\<close>.\<close>

definition str :: "jsval \<Rightarrow> string \<Rightarrow> string option \<Rightarrow> error + string option" where
  "str authorRaw key defaultValue =
     bindE (getProp authorRaw key)
       (\<lambda>v. case v of JStr s \<Rightarrow> Inr (Some s) | _ \<Rightarrow> Inr defaultValue)"

text \<open>
  The callback of \<^verbatim>\<open>affils.forEach\<close>: the strings it pushes for one entry. The second
  test is \<^verbatim>\<open>typeof(affilRaw === "object")\<close> in the source: the type of a comparison's
  result.
\<close>

definition affilEntry :: "jsval \<Rightarrow> error + string list" where
  "affilEntry affilRaw =
     (case affilRaw of
        JStr s \<Rightarrow> Inr [s]
      | _ \<Rightarrow>
          if truthy (JStr (typeof (JBool (affilRaw = JStr ''object'')))) then
            bindE (getProp affilRaw ''name'')
              (\<lambda>nm. case nm of JStr s \<Rightarrow> Inr [s] | _ \<Rightarrow> Inr [])
          else Inr [])"

fun affilLoop :: "jsval list \<Rightarrow> string list \<Rightarrow> error + string list" where
  "affilLoop [] affiliations = Inr affiliations"
| "affilLoop (affilRaw # rest) affiliations =
     (case affilEntry affilRaw of
        Inl e \<Rightarrow> Inl e
      | Inr xs \<Rightarrow> affilLoop rest (affiliations @ xs))"

text \<open>The affiliations of a non-string author item (the two tiers of the source).\<close>

definition affiliationsOf :: "jsval \<Rightarrow> error + string list" where
  "affiliationsOf authorRaw =
     bindE (str authorRaw ''affiliation'' None)
       (\<lambda>affiliationSimple.
          if truthyStr affiliationSimple
          then Inr (case affiliationSimple of None \<Rightarrow> [] | Some s \<Rightarrow> [s])
          else
            bindE (getProp authorRaw ''affiliations'')
              (\<lambda>a. if truthy a
                   then affilLoop (case a of JArr xs \<Rightarrow> xs | _ \<Rightarrow> [a]) []
                   else Inr []))"

text \<open>The body of the loop of \<^verbatim>\<open>parseAuthor\<close>: the authors pushed for one item.\<close>

definition authorItem :: "jsval \<Rightarrow> error + author list" where
  "authorItem authorRaw =
     (case authorRaw of
        JStr s \<Rightarrow> Inr [\<lparr> name = s, affil = None, orcid = None \<rparr>]
      | _ \<Rightarrow>
          if typeof authorRaw = ''object'' then
            bindE (affiliationsOf authorRaw)
              (\<lambda>affiliations.
                 bindE (str authorRaw ''name'' (Some []))
                   (\<lambda>nm.
                      bindE (str authorRaw ''orcid'' None)
                        (\<lambda>oc. Inr [\<lparr> name = (case nm of None \<Rightarrow> [] | Some s \<Rightarrow> s),
                                       affil = Some affiliations, orcid = oc \<rparr>])))
          else Inr [])"

fun authorLoop :: "jsval list \<Rightarrow> author list \<Rightarrow> error + author list" where
  "authorLoop [] authors = Inr authors"
| "authorLoop (authorRaw # rest) authors =
     (case authorItem authorRaw of
        Inl e \<Rightarrow> Inl e
      | Inr xs \<Rightarrow> authorLoop rest (authors @ xs))"

definition parseAuthor :: "jsval \<Rightarrow> error + author list" where
  "parseAuthor a = authorLoop (case a of JArr xs \<Rightarrow> xs | _ \<Rightarrow> [a]) []"

section \<open>The title block and its rendering\<close>

record titleBlock =
  title :: "string option"
  subtitle :: "string option"
  abstract :: "string option"
  date :: "string option"
  modified :: "string option"
  doi :: "string option"
  authors :: "author list option"

definition renderDocMeta :: "string \<Rightarrow> string list \<Rightarrow> string" where
  \<open>renderDocMeta label vals =
     join ''\<newline>''
       ([''<div class="quarto-meta">'',
         ''<p class="quarto-meta-title">'' @ label @ ''</p>'']
        @ map (\<lambda>val. ''<p>'' @ val @ ''</p>'') vals
        @ [''</div>''])\<close>

definition renderDocMetas :: "string list \<Rightarrow> string" where
  \<open>renderDocMetas docMetas =
     join ''\<newline>'' ([''<div class="quarto-meta-block">''] @ docMetas @ [''</div>''])\<close>

text \<open>
  The loop over the authors in \<^verbatim>\<open>renderTitle\<close>, with its two arrays \<^verbatim>\<open>names\<close> and
  \<^verbatim>\<open>affils\<close>.
\<close>

fun authorColumns ::
  "author list \<Rightarrow> string list \<Rightarrow> string list \<Rightarrow> string list \<times> string list" where
  "authorColumns [] names affils = (names, affils)"
| "authorColumns (a # rest) names affils =
     authorColumns rest
       (names @ [name a]
          @ replicate
              (case affil a of
                 None \<Rightarrow> 0
               | Some xs \<Rightarrow> nat (max (int (length xs) - 1) 0))
              ''&nbsp;'')
       (affils @ (case affil a of None \<Rightarrow> [] | Some xs \<Rightarrow> xs))"

definition authorBlocks :: "author list option \<Rightarrow> string list" where
  "authorBlocks au =
     (case au of
        None \<Rightarrow> []
      | Some as \<Rightarrow>
          if length as > 0 then
            (let cols = authorColumns as [] [];
                 names = fst cols;
                 affils = snd cols
             in [renderDocMeta (if length names = 1 then ''Author'' else ''Authors'') names]
                @ (if length affils > 0
                   then [renderDocMeta
                           (if length affils = 1 then ''Affiliation'' else ''Affiliations'')
                           affils]
                   else []))
          else [])"

definition metadataBlocks :: "titleBlock \<Rightarrow> string list" where
  \<open>metadataBlocks tb =
     authorBlocks (authors tb)
     @ (if truthyStr (date tb) then [renderDocMeta ''Date'' [the (date tb)]] else [])
     @ (if truthyStr (modified tb) then [renderDocMeta ''Date'' [the (modified tb)]] else [])
     @ (if truthyStr (doi tb)
        then [renderDocMeta ''DOI''
                [''<a href="https://doi.org/'' @ the (doi tb) @ ''">'' @ the (doi tb)
                 @ ''</a>'']]
        else [])\<close>

definition renderTitle :: "titleBlock \<Rightarrow> string" where
  \<open>renderTitle tb =
     join ''\<newline>''
       ((if truthyStr (title tb) then [''<h1>'' @ the (title tb) @ ''</h1>''] else [])
        @ (if truthyStr (subtitle tb)
           then [''<p class="quarto-subtitle">'' @ the (subtitle tb) @ ''</p>'']
           else [])
        @ (if length (metadataBlocks tb) > 0 then [renderDocMetas (metadataBlocks tb)] else [])
        @ (if truthyStr (abstract tb)
           then [''<p class="quarto-abstract">'' @ the (abstract tb) @ ''</p>'']
           else []))\<close>

section \<open>Parsing and rendering the front matter\<close>

text \<open>
  \<^verbatim>\<open>str.replace(/---\s*$/, "")\<close>: the text from the leftmost place where three markers
  are followed by white space only, up to the end of the string, is removed.
\<close>

definition isWhite :: "char \<Rightarrow> bool" where
  "isWhite c = (c \<in> set [CHR 0x09, CHR 0x0A, CHR 0x0B, CHR 0x0C, CHR 0x0D, CHR 0x20, CHR 0xA0])"

fun stripFence :: "string \<Rightarrow> string" where
  "stripFence [] = []"
| "stripFence (c # cs) =
     (if take 3 (c # cs) = ''---'' \<and> list_all isWhite (drop 3 (c # cs)) then []
      else c # stripFence cs)"

text \<open>
  \<^verbatim>\<open>yaml.load\<close> and \<^verbatim>\<open>yaml.dump\<close> belong to the js-yaml library; they are parameters
  of the model. Either may throw.
\<close>

type_synonym yaml_load = "string \<Rightarrow> error + jsval"
type_synonym yaml_dump = "jsval \<Rightarrow> error + string"

definition parseFrontMatterStr :: "yaml_load \<Rightarrow> string \<Rightarrow> jsval" where
  "parseFrontMatterStr load s =
     (case load (stripFence s) of Inl e \<Rightarrow> JUndefined | Inr v \<Rightarrow> v)"

text \<open>
  The closure \<^verbatim>\<open>readStr(key)\<close> of \<^verbatim>\<open>renderFrontMatter\<close>: the value it returns and the
  mapping \<^verbatim>\<open>frontMatter\<close> after the call.
\<close>

definition readStr :: "jsval \<Rightarrow> string \<Rightarrow> error + (string option \<times> jsval)" where
  "readStr fm key =
     bindE (getProp fm key)
       (\<lambda>v. case v of
              JStr s \<Rightarrow> Inr (Some s, deleteProp fm key)
            | _ \<Rightarrow> Inr (None, fm))"

text \<open>
  The extraction inside \<^verbatim>\<open>renderFrontMatter\<close> (from \<^verbatim>\<open>titleBlock = {}\<close> to the two
  \<^verbatim>\<open>delete\<close> statements): the title block and what is left of the mapping.
\<close>

definition extractTitleBlock :: "jsval \<Rightarrow> error + (titleBlock \<times> jsval)" where
  "extractTitleBlock fm0 =
     bindE (readStr fm0 ''title'') (\<lambda>(t, fm1).
     bindE (readStr fm1 ''subtitle'') (\<lambda>(st, fm2).
     bindE (readStr fm2 ''abstract'') (\<lambda>(ab, fm3).
     bindE (readStr fm3 ''date'') (\<lambda>(dt, fm4).
     bindE (readStr fm4 ''date-modified'') (\<lambda>(md, fm5).
     bindE (readStr fm5 ''doi'') (\<lambda>(di, fm6).
     bindE (getProp fm6 ''author'') (\<lambda>a.
     bindE (if truthy a then Inr a else getProp fm6 ''authors'') (\<lambda>v.
     bindE (parseAuthor v) (\<lambda>as.
       Inr (\<lparr> title = t, subtitle = st, abstract = ab, date = dt, modified = md,
              doi = di, authors = Some as \<rparr>,
            deleteProp (deleteProp fm6 ''author'') ''authors''))))))))))"

definition renderFrontMatter ::
  "yaml_load \<Rightarrow> yaml_dump \<Rightarrow> token list \<Rightarrow> nat \<Rightarrow> error + string" where
  \<open>renderFrontMatter load dump toks idx =
     (if idx < length toks then
        (let frontUnknown = parseFrontMatterStr load (markup (toks ! idx)) in
         if typeof frontUnknown = ''object'' then
           bindE (extractTitleBlock frontUnknown) (\<lambda>(tb, fm).
           bindE (dump fm) (\<lambda>dumped.
             Inr (renderTitle tb @ ''\<newline><pre>\<newline>'' @ dumped @ ''\<newline></pre>'')))
         else Inr [])
      else Inl TypeError)\<close>

section \<open>Notions used to state the properties\<close>

text \<open>The own keys of a mapping.\<close>

fun keysOf :: "jsval \<Rightarrow> string set" where
  "keysOf (JObj kvs) = set (map fst kvs)"
| "keysOf v = {}"

text \<open>
  The string held under a key, if the key holds a string (what \<^verbatim>\<open>readStr\<close> returns),
  and the properties left after \<^verbatim>\<open>readStr\<close> has looked at the key.
\<close>

definition strField :: "(string \<times> jsval) list \<Rightarrow> string \<Rightarrow> string option" where
  "strField kvs key = (case map_of kvs key of Some (JStr s) \<Rightarrow> Some s | _ \<Rightarrow> None)"

definition dropStr :: "(string \<times> jsval) list \<Rightarrow> string \<Rightarrow> (string \<times> jsval) list" where
  "dropStr kvs key =
     (if strField kvs key = None then kvs else filter (\<lambda>kv. fst kv \<noteq> key) kvs)"

text \<open>
  The value of \<^verbatim>\<open>frontMatter.author || frontMatter.authors\<close>, and the properties left
  when the extraction is over.
\<close>

definition handed :: "(string \<times> jsval) list \<Rightarrow> jsval" where
  "handed kvs =
     (case map_of kvs ''author'' of
        None \<Rightarrow> (case map_of kvs ''authors'' of None \<Rightarrow> JUndefined | Some b \<Rightarrow> b)
      | Some a \<Rightarrow>
          if truthy a then a
          else (case map_of kvs ''authors'' of None \<Rightarrow> JUndefined | Some b \<Rightarrow> b))"

definition residual :: "(string \<times> jsval) list \<Rightarrow> (string \<times> jsval) list" where
  "residual kvs =
     filter (\<lambda>kv. fst kv \<noteq> ''authors'') (filter (\<lambda>kv. fst kv \<noteq> ''author'')
       (dropStr (dropStr (dropStr (dropStr (dropStr (dropStr kvs
          ''title'') ''subtitle'') ''abstract'') ''date'') ''date-modified'') ''doi''))"

text \<open>
  The source keys of the populated fields of a title block, in the spec's words: each of
  the six string fields that is set stands for its key, and a non-empty list of authors
  stands for the key whose value went to \<^verbatim>\<open>parseAuthor\<close>.
\<close>

definition authorKey :: "jsval \<Rightarrow> string" where
  "authorKey fm =
     (case getProp fm ''author'' of
        Inl e \<Rightarrow> ''authors''
      | Inr a \<Rightarrow> if truthy a then ''author'' else ''authors'')"

definition populatedKeys :: "jsval \<Rightarrow> titleBlock \<Rightarrow> string set" where
  "populatedKeys fm tb =
     (if title tb = None then {} else {''title''})
     \<union> (if subtitle tb = None then {} else {''subtitle''})
     \<union> (if abstract tb = None then {} else {''abstract''})
     \<union> (if date tb = None then {} else {''date''})
     \<union> (if modified tb = None then {} else {''date-modified''})
     \<union> (if doi tb = None then {} else {''doi''})
     \<union> (case authors tb of Some (a # as) \<Rightarrow> {authorKey fm} | _ \<Rightarrow> {})"

text \<open>
  The two-tier rule for affiliations, in the spec's words, with the tests the code makes:
  the first tier needs a non-empty string under \<^verbatim>\<open>affiliation\<close>, the second a truthy
  value under \<^verbatim>\<open>affiliations\<close>, which is taken as a sequence; an entry gives itself
  when it is a string, its \<^verbatim>\<open>name\<close> when it is a mapping with a string name, and
  nothing otherwise.
\<close>

definition affilEntries :: "(string \<times> jsval) list \<Rightarrow> jsval list" where
  "affilEntries kvs =
     (case map_of kvs ''affiliations'' of
        None \<Rightarrow> []
      | Some a \<Rightarrow> if truthy a then (case a of JArr xs \<Rightarrow> xs | _ \<Rightarrow> [a]) else [])"

fun entryNames :: "jsval \<Rightarrow> string list" where
  "entryNames (JStr s) = [s]"
| "entryNames (JObj kvs) = (case map_of kvs ''name'' of Some (JStr n) \<Rightarrow> [n] | _ \<Rightarrow> [])"
| "entryNames v = []"

definition twoTier :: "(string \<times> jsval) list \<Rightarrow> string list" where
  "twoTier kvs =
     (case map_of kvs ''affiliation'' of
        Some (JStr s) \<Rightarrow>
          if s \<noteq> [] then [s] else concat (map entryNames (affilEntries kvs))
      | _ \<Rightarrow> concat (map entryNames (affilEntries kvs)))"

text \<open>
  The notions of the scan. A line's content starts after its indentation and ends at its
  end offset. A line table is well formed at a line when the content lies inside the
  source and the end offset is the place of a line feed or the end of the source, as in
  every table that \<^verbatim>\<open>StateBlock\<close> builds.
\<close>

definition lineStart :: "state_block \<Rightarrow> nat \<Rightarrow> nat" where
  "lineStart st n = bMarks st ! n + tShift st ! n"

definition lineText :: "state_block \<Rightarrow> nat \<Rightarrow> string" where
  "lineText st n = js_slice (src st) (int (lineStart st n)) (int (eMarks st ! n))"

definition wfLine :: "state_block \<Rightarrow> nat \<Rightarrow> bool" where
  "wfLine st n =
     (lineStart st n \<le> eMarks st ! n \<and> eMarks st ! n \<le> length (src st)
      \<and> charAt (src st) (eMarks st ! n) \<in> {None, Some (CHR 0x0A)})"

text \<open>
  The test of the source for a non-empty line indented less than the enclosing block.
\<close>

definition negativeIndent :: "state_block \<Rightarrow> nat \<Rightarrow> bool" where
  "negativeIndent st n = (lineStart st n < eMarks st ! n \<and> sCount st ! n < blkIndent st)"

text \<open>
  The closing fence in the spec's words: (a) the first character after the indentation
  is the marker, (b) the indentation relative to the block indent is less than 4, (c)
  the run of markers there is at least as long as the opening run, (d) the characters
  after the run, up to the end of the line, are spaces or tabs.
\<close>

definition runLength :: "string \<Rightarrow> nat \<Rightarrow> nat" where
  "runLength s p = length (takeWhile (\<lambda>c. c = marker_char) (drop p s))"

definition closingFence :: "state_block \<Rightarrow> nat \<Rightarrow> nat \<Rightarrow> bool" where
  "closingFence st marker_count n =
     (charAt (src st) (lineStart st n) = Some marker_char
      \<and> sCount st ! n - blkIndent st < 4
      \<and> marker_count \<le> runLength (src st) (lineStart st n)
      \<and> list_all isSpace
           (take (eMarks st ! n - (lineStart st n + runLength (src st) (lineStart st n)))
              (drop (lineStart st n + runLength (src st) (lineStart st n)) (src st))))"

text \<open>
  The number of markers that \<^verbatim>\<open>frontMatter\<close> counts on the opening line, and a body
  line that the scan passes over: a well-formed line that is no closing fence, is not
  indented less than the block, and whose content is not three full stops.
\<close>

definition markerCount :: "state_block \<Rightarrow> nat" where
  "markerCount st =
     (fst (markerRun (src st) (lineStart st 0) (eMarks st ! 0) (lineStart st 0 + 1))
        - lineStart st 0) div marker_len"

definition ordinaryLine :: "state_block \<Rightarrow> nat \<Rightarrow> nat \<Rightarrow> bool" where
  "ordinaryLine st marker_count n =
     (wfLine st n \<and> \<not> closingFence st marker_count n \<and> \<not> negativeIndent st n
      \<and> lineText st n \<noteq> ''...'')"

text \<open>
  The variables of the body loop when \<^verbatim>\<open>frontMatter\<close> enters it at line 0, and the
  variables it leaves: the marker count is the one counted on the opening line.
\<close>

definition openingScan :: "state_block \<Rightarrow> scan" where
  "openingScan st =
     \<lparr> nextLine = 0, start = lineStart st 0, max_pos = eMarks st ! 0,
       pos = fst (markerRun (src st) (lineStart st 0) (eMarks st ! 0) (lineStart st 0 + 1))
             - (fst (markerRun (src st) (lineStart st 0) (eMarks st ! 0) (lineStart st 0 + 1))
                - lineStart st 0) mod marker_len,
       auto_closed = False \<rparr>"

definition bodyScan :: "state_block \<Rightarrow> nat \<Rightarrow> scan" where
  "bodyScan st endLine = scanBody st endLine (markerCount st) (openingScan st)"

section \<open>Lemmas about the extraction\<close>

lemma bindE_simps [simp]: "bindE (Inl e) f = Inl e" "bindE (Inr x) f = f x"
  by (simp_all add: bindE_def)

lemma readStr_JObj: "readStr (JObj kvs) key = Inr (strField kvs key, JObj (dropStr kvs key))"
  by (simp add: readStr_def strField_def dropStr_def split: option.splits jsval.splits)

lemma map_of_filter_key:
  "map_of (filter (\<lambda>kv. fst kv \<noteq> key) kvs) k = (if k = key then None else map_of kvs k)"
  by (induction kvs) auto

lemma strField_dropStr: "k \<noteq> key \<Longrightarrow> strField (dropStr kvs key) k = strField kvs k"
  by (simp add: strField_def dropStr_def map_of_filter_key)

lemma map_of_dropStr: "k \<noteq> key \<Longrightarrow> map_of (dropStr kvs key) k = map_of kvs k"
  by (simp add: dropStr_def map_of_filter_key)

lemma keys_dropStr:
  "fst ` set (dropStr kvs key) = fst ` set kvs - (if strField kvs key = None then {} else {key})"
  by (auto simp: dropStr_def)

lemma keys_filter: "fst ` set (filter (\<lambda>kv. fst kv \<noteq> key) kvs) = fst ` set kvs - {key}"
  by auto

lemma extract_JObj:
  "extractTitleBlock (JObj kvs) =
     bindE (parseAuthor (handed kvs)) (\<lambda>as.
       Inr (\<lparr> title = strField kvs ''title'', subtitle = strField kvs ''subtitle'',
              abstract = strField kvs ''abstract'', date = strField kvs ''date'',
              modified = strField kvs ''date-modified'', doi = strField kvs ''doi'',
              authors = Some as \<rparr>, JObj (residual kvs)))"
  by (simp add: extractTitleBlock_def readStr_JObj strField_dropStr map_of_dropStr handed_def
        residual_def split: option.splits)

lemma strField_key: "strField kvs k \<noteq> None \<Longrightarrow> k \<in> fst ` set kvs"
proof -
  assume "strField kvs k \<noteq> None"
  then obtain v where "map_of kvs k = Some v"
    by (cases "map_of kvs k") (auto simp: strField_def)
  then have "(k, v) \<in> set kvs" by (rule map_of_SomeD)
  then show ?thesis by (rule rev_image_eqI) simp
qed

lemma authorItem_JStr: "authorItem (JStr s) = Inr [\<lparr> name = s, affil = None, orcid = None \<rparr>]"
  by (simp add: authorItem_def)

lemma parseAuthor_JStr: "parseAuthor (JStr s) = Inr [\<lparr> name = s, affil = None, orcid = None \<rparr>]"
  by (simp add: parseAuthor_def authorItem_JStr)

lemma parseAuthor_undefined: "parseAuthor JUndefined = Inr []"
  by (simp add: parseAuthor_def authorItem_def)

lemma diff_ifs:
  "K - (if f k1 then {} else {k1}) - (if f k2 then {} else {k2}) - (if f k3 then {} else {k3})
     - (if f k4 then {} else {k4}) - (if f k5 then {} else {k5}) - (if f k6 then {} else {k6})
     - {a} - {b}
   = K - {k. k \<in> set [k1, k2, k3, k4, k5, k6] \<and> \<not> f k} - {a, b}"
  by auto

lemma set_ifs:
  "{k. k \<in> set [k1, k2, k3, k4, k5, k6] \<and> \<not> f k}
   = (if f k1 then {} else {k1}) \<union> (if f k2 then {} else {k2}) \<union> (if f k3 then {} else {k3})
     \<union> (if f k4 then {} else {k4}) \<union> (if f k5 then {} else {k5}) \<union> (if f k6 then {} else {k6})"
  by auto

lemma partition_sets:
  assumes "R = K - S - AB" "P = S \<union> A" "A \<subseteq> AB" "S \<subseteq> K" "A \<subseteq> K"
  shows "P \<inter> R = {} \<and> P \<union> R \<subseteq> K \<and> K - (P \<union> R) \<subseteq> AB"
  using assms by blast

lemma key_neqs:
  "''subtitle'' \<noteq> ''title''"
  "''abstract'' \<noteq> ''title''" "''abstract'' \<noteq> ''subtitle''"
  "''date'' \<noteq> ''title''" "''date'' \<noteq> ''subtitle''" "''date'' \<noteq> ''abstract''"
  "''date-modified'' \<noteq> ''title''" "''date-modified'' \<noteq> ''subtitle''"
  "''date-modified'' \<noteq> ''abstract''" "''date-modified'' \<noteq> ''date''"
  "''doi'' \<noteq> ''title''" "''doi'' \<noteq> ''subtitle''" "''doi'' \<noteq> ''abstract''"
  "''doi'' \<noteq> ''date''" "''doi'' \<noteq> ''date-modified''"
  by simp_all

lemma keys_residual:
  "fst ` set (residual kvs) =
     fst ` set kvs
       - {k. k \<in> set [''title'', ''subtitle'', ''abstract'', ''date'', ''date-modified'', ''doi'']
             \<and> strField kvs k \<noteq> None}
       - {''author'', ''authors''}"
proof -
  have "fst ` set (residual kvs) =
      fst ` set kvs
        - (if strField kvs ''title'' = None then {} else {''title''})
        - (if strField kvs ''subtitle'' = None then {} else {''subtitle''})
        - (if strField kvs ''abstract'' = None then {} else {''abstract''})
        - (if strField kvs ''date'' = None then {} else {''date''})
        - (if strField kvs ''date-modified'' = None then {} else {''date-modified''})
        - (if strField kvs ''doi'' = None then {} else {''doi''})
        - {''author''} - {''authors''}"
    unfolding residual_def keys_filter keys_dropStr
    by (simp only: strField_dropStr key_neqs simp_thms)
  also have "\<dots> = fst ` set kvs
       - {k. k \<in> set [''title'', ''subtitle'', ''abstract'', ''date'', ''date-modified'', ''doi'']
             \<and> \<not> (strField kvs k = None)}
       - {''author'', ''authors''}"
    by (rule diff_ifs [where f = "\<lambda>k. strField kvs k = None"])
  finally show ?thesis .
qed

lemma authorKey_in_keys:
  assumes "parseAuthor (handed kvs) = Inr (a # as)"
  shows "authorKey (JObj kvs) \<in> fst ` set kvs"
proof (cases "map_of kvs ''author''")
  case None
  with assms parseAuthor_undefined have "map_of kvs ''authors'' \<noteq> None"
    by (auto simp: handed_def split: option.splits)
  then have "''authors'' \<in> fst ` set kvs" by (simp add: map_of_eq_None_iff)
  with None show ?thesis by (simp add: authorKey_def)
next
  case (Some v)
  then have k: "''author'' \<in> fst ` set kvs"
    by (metis map_of_eq_None_iff option.distinct(1))
  show ?thesis
  proof (cases "truthy v")
    case True
    with Some k show ?thesis by (simp add: authorKey_def)
  next
    case False
    with Some assms parseAuthor_undefined have "map_of kvs ''authors'' \<noteq> None"
      by (auto simp: handed_def split: option.splits)
    then have "''authors'' \<in> fst ` set kvs" by (simp add: map_of_eq_None_iff)
    with Some False show ?thesis by (simp add: authorKey_def)
  qed
qed

lemma authorKey_cases: "authorKey fm = ''author'' \<or> authorKey fm = ''authors''"
  by (simp add: authorKey_def split: sum.splits)

section \<open>Lemmas about the authors\<close>

lemma str_JObj:
  "str (JObj kvs) key d = Inr (case strField kvs key of None \<Rightarrow> d | Some s \<Rightarrow> Some s)"
  by (simp add: str_def strField_def split: option.splits jsval.splits)

lemma affilEntry_names:
  "e \<noteq> JNull \<Longrightarrow> e \<noteq> JUndefined \<Longrightarrow> affilEntry e = Inr (entryNames e)"
  by (cases e) (simp_all add: affilEntry_def split: option.splits jsval.splits)

lemma affilLoop_names:
  "JNull \<notin> set es \<Longrightarrow> JUndefined \<notin> set es \<Longrightarrow>
   affilLoop es acc = Inr (acc @ concat (map entryNames es))"
  by (induction es arbitrary: acc) (auto simp: affilEntry_names)

lemma second_tier:
  "bindE (getProp (JObj kvs) ''affiliations'')
     (\<lambda>a. if truthy a then affilLoop (case a of JArr xs \<Rightarrow> xs | _ \<Rightarrow> [a]) [] else Inr [])
   = affilLoop (affilEntries kvs) []"
  by (cases "map_of kvs ''affiliations''") (simp_all add: affilEntries_def)

lemma affiliationsOf_JObj:
  "affiliationsOf (JObj kvs) =
     (case strField kvs ''affiliation'' of
        None \<Rightarrow> affilLoop (affilEntries kvs) []
      | Some s \<Rightarrow> if s \<noteq> [] then Inr [s] else affilLoop (affilEntries kvs) [])"
  unfolding affiliationsOf_def str_JObj second_tier
  by (simp split: option.splits)

lemma twoTier_strField:
  "twoTier kvs =
     (case strField kvs ''affiliation'' of
        None \<Rightarrow> concat (map entryNames (affilEntries kvs))
      | Some s \<Rightarrow> if s \<noteq> [] then [s] else concat (map entryNames (affilEntries kvs)))"
  by (simp add: twoTier_def strField_def split: option.splits jsval.splits)

lemma affiliationsOf_twoTier:
  assumes "JNull \<notin> set (affilEntries kvs)" and "JUndefined \<notin> set (affilEntries kvs)"
  shows "affiliationsOf (JObj kvs) = Inr (twoTier kvs)"
  using assms
  by (simp add: affiliationsOf_JObj twoTier_strField affilLoop_names split: option.splits)

section \<open>Lemmas about the scan\<close>

lemma emitToken_frame:
  "fst (emitToken st startLine sc0 sc) = True"
  "lineMax (fst (snd (emitToken st startLine sc0 sc))) = lineMax st"
  "parentType (fst (snd (emitToken st startLine sc0 sc))) = parentType st"
  by (simp_all add: emitToken_def Let_def push_def)

lemma frontMatter_title_doc:
  "frontMatter (StateBlock ''---\<newline>title: Foo\<newline>---\<newline>\<newline>Body'') 0 5 False =
    (True,
     \<lparr> src = ''---\<newline>title: Foo\<newline>---\<newline>\<newline>Body'', bMarks = [0, 4, 15, 19, 20, 24],
       eMarks = [3, 14, 18, 19, 24, 24], tShift = [0, 0, 0, 0, 0, 0],
       sCount = [0, 0, 0, 0, 0, 0], blkIndent = 0, line = 3, lineMax = 5,
       parentType = ''root'', slevel = 0,
       tokens = [\<lparr> ttype = ''front_matter'', tag = [], nesting = 0, level = 0,
           content = [], markup = ''---\<newline>title: Foo\<newline>---'', info = [],
           tmap = Some (0, 18), meta = Some ''title: Foo'', block = True,
           hidden = True \<rparr>] \<rparr>,
     [Some ''title: Foo''])"
  by code_simp

lemma scanBody_title_doc:
  "scanBody (StateBlock ''---\<newline>title: Foo\<newline>---\<newline>\<newline>Body'') 5 3
     \<lparr> nextLine = 0, start = 0, max_pos = 3, pos = 3, auto_closed = False \<rparr>
   = \<lparr> nextLine = 2, start = 15, max_pos = 18, pos = 18, auto_closed = True \<rparr>"
  by code_simp

lemma lineMax_title_doc:
  "lineMax (StateBlock ''---\<newline>title: Foo\<newline>---\<newline>\<newline>Body'') = 5"
  by code_simp

lemma stripFence_title_doc:
  "stripFence ''---\<newline>title: Foo\<newline>---'' = ''---\<newline>title: Foo\<newline>''"
  by code_simp

lemma frontMatter_empty_doc:
  "tokens (fst (snd (frontMatter (StateBlock ''---\<newline>---\<newline>'') 0 2 False))) =
     [\<lparr> ttype = ''front_matter'', tag = [], nesting = 0, level = 0,
        content = [], markup = ''---\<newline>---'', info = [],
        tmap = Some (0, 7), meta = Some [], block = True, hidden = True \<rparr>]"
  by code_simp

lemma stripFence_empty_doc: "stripFence ''---\<newline>---'' = ''---\<newline>''"
  by code_simp

lemma frontMatter_no_match:
  "frontMatter (StateBlock ''--\<newline>a'') 0 2 False = (False, StateBlock ''--\<newline>a'', [])"
  by code_simp

lemma marker_consts [simp]: "marker_len = 1" "marker_char = CHR ''-''" "min_markers = 3"
  by (simp_all add: marker_len_def marker_char_def marker_str_def min_markers_def)

lemma markerRun_unfold:
  "markerRun s strt mx p =
     (if p \<le> mx then
        (if charAt s p = Some CHR ''-'' then markerRun s strt mx (p + 1) else (p, True))
      else (p, False))"
  by (subst markerRun.simps) (auto simp: marker_str_def)

lemma runLength_not_marker: "charAt s p \<noteq> Some CHR ''-'' \<Longrightarrow> runLength s p = 0"
  by (cases "drop p s") (auto simp: runLength_def charAt_def hd_drop_conv_nth
        dest: arg_cong [where f = hd] split: if_splits)

lemma runLength_marker: "charAt s p = Some CHR ''-'' \<Longrightarrow> runLength s p = Suc (runLength s (Suc p))"
  by (auto simp: runLength_def charAt_def Cons_nth_drop_Suc [symmetric] split: if_splits)

lemma markerRun_runLength:
  "charAt s mx \<noteq> Some CHR ''-'' \<Longrightarrow> p \<le> mx \<Longrightarrow> fst (markerRun s strt mx p) = p + runLength s p"
proof (induction s strt mx p rule: markerRun.induct)
  case (1 s strt mx p)
  show ?case
  proof (cases "charAt s p = Some CHR ''-''")
    case True
    with "1.prems" have "p \<noteq> mx" by auto
    with "1.prems" have le: "p + 1 \<le> mx" by simp
    have "fst (markerRun s strt mx (p + 1)) = p + 1 + runLength s (p + 1)"
      using "1.IH" "1.prems" True le by (simp add: marker_str_def)
    with True "1.prems" show ?thesis
      by (subst markerRun_unfold) (simp add: runLength_marker)
  next
    case False
    with "1.prems" show ?thesis
      by (subst markerRun_unfold) (simp add: runLength_not_marker)
  qed
qed

lemma skipSpacesFrom_takeWhile: "skipSpacesFrom cs p = p + length (takeWhile isSpace cs)"
  by (induction cs arbitrary: p) auto

lemma takeWhile_covers:
  "k \<le> length xs \<Longrightarrow> (k \<le> length (takeWhile P xs)) = list_all P (take k xs)"
proof (induction xs arbitrary: k)
  case Nil
  then show ?case by simp
next
  case (Cons x xs)
  then show ?case by (cases k) auto
qed

lemma fenceCheck_pos: "fst (fenceCheck st mc n s mx p) = fst (fenceCheck st mc n s mx q)"
  by (simp add: fenceCheck_def Let_def)

lemma fenceCheck_closingFence:
  assumes "wfLine st n"
  shows "fst (fenceCheck st mc n (lineStart st n) (eMarks st ! n) p) = closingFence st mc n"
proof (cases "charAt (src st) (lineStart st n) = Some CHR ''-''")
  case False
  then show ?thesis by (auto simp: fenceCheck_def closingFence_def)
next
  case True
  let ?s = "lineStart st n" and ?m = "eMarks st ! n"
  from assms have le: "?s \<le> ?m" and len: "?m \<le> length (src st)"
    and nl: "charAt (src st) ?m \<noteq> Some CHR ''-''"
    by (auto simp: wfLine_def)
  from True nl have "?s \<noteq> ?m" by auto
  with le have "?s + 1 \<le> ?m" by simp
  with nl have "fst (markerRun (src st) ?s ?m (?s + 1)) = ?s + 1 + runLength (src st) (?s + 1)"
    by (rule markerRun_runLength)
  with True have run: "fst (markerRun (src st) ?s ?m (?s + 1)) = ?s + runLength (src st) ?s"
    by (simp add: runLength_marker)
  let ?p = "?s + runLength (src st) ?s"
  have sk: "skipSpaces st ?p = ?p + length (takeWhile isSpace (drop ?p (src st)))"
    by (simp add: skipSpaces_def skipSpacesFrom_takeWhile)
  have "?m - ?p \<le> length (drop ?p (src st))" using len by simp
  then have cov: "(?m - ?p \<le> length (takeWhile isSpace (drop ?p (src st))))
      = list_all isSpace (take (?m - ?p) (drop ?p (src st)))"
    by (rule takeWhile_covers)
  have "(\<not> skipSpaces st ?p < ?m) = list_all isSpace (take (?m - ?p) (drop ?p (src st)))"
    unfolding sk cov [symmetric] by auto
  with True run show ?thesis
    by (auto simp: fenceCheck_def closingFence_def Let_def)
qed

lemma js_slice_nat: "js_slice s (int a) (int b) = take (b - a) (drop a s)"
proof (cases "a < length s")
  case True
  then show ?thesis
    by (cases "b \<le> length s") (auto simp: js_slice_def Let_def min_def nat_diff_distrib')
next
  case False
  then show ?thesis by (simp add: js_slice_def Let_def min_def)
qed

lemma slice_dots_first:
  assumes "js_slice s (int a) (int b) = ''...''"
  shows "charAt s a = Some CHR ''.''"
proof -
  from assms have t: "take (b - a) (drop a s) = ''...''" by (simp add: js_slice_nat)
  then have "drop a s \<noteq> []" by auto
  then have a: "a < length s" by simp
  from t have "hd (take (b - a) (drop a s)) = CHR ''.''" by simp
  moreover from t have "b - a \<noteq> 0" by auto
  ultimately have "hd (drop a s) = CHR ''.''" by (cases "b - a") (auto simp: take_Suc)
  with a show ?thesis by (simp add: charAt_def hd_drop_conv_nth)
qed

lemma slice_dots_second:
  assumes "js_slice s (int a) (int b) = ''...''"
  shows "charAt s (Suc a) = Some CHR ''.''"
proof -
  from assms have t: "take (b - a) (drop a s) = ''...''" by (simp add: js_slice_nat)
  then have l: "length (take (b - a) (drop a s)) = 3" by simp
  then have a: "Suc a < length s" by auto
  from t have "take (b - a) (drop a s) ! 1 = CHR ''.''" by simp
  moreover from l have "1 < b - a" by auto
  ultimately have "drop a s ! 1 = CHR ''.''" by simp
  with a show ?thesis by (simp add: charAt_def)
qed

lemma scanBody_nextLine: "nextLine sc < nextLine (scanBody st endLine mc sc)"
proof (induction st endLine mc sc rule: scanBody.induct)
  case (1 st endLine mc sc)
  from "1.IH" show ?case
    by (subst scanBody.simps) (auto simp: not_le less_Suc_eq dest: Suc_lessD)
qed

lemma scanBody_stop:
  "endLine \<le> Suc (nextLine sc) \<or> js_slice (src st) (int (start sc)) (int (max_pos sc)) = ''...''
   \<Longrightarrow> scanBody st endLine mc sc = sc \<lparr> nextLine := Suc (nextLine sc) \<rparr>"
  by (subst scanBody.simps) auto

lemma scanBody_negative:
  "Suc (nextLine sc) < endLine \<Longrightarrow>
   js_slice (src st) (int (start sc)) (int (max_pos sc)) \<noteq> ''...'' \<Longrightarrow>
   negativeIndent st (Suc (nextLine sc)) \<Longrightarrow>
   scanBody st endLine mc sc =
     sc \<lparr> nextLine := Suc (nextLine sc), start := lineStart st (Suc (nextLine sc)),
          max_pos := eMarks st ! Suc (nextLine sc) \<rparr>"
  by (subst scanBody.simps) (auto simp: negativeIndent_def lineStart_def)

lemma scanBody_found:
  "Suc (nextLine sc) < endLine \<Longrightarrow>
   js_slice (src st) (int (start sc)) (int (max_pos sc)) \<noteq> ''...'' \<Longrightarrow>
   \<not> negativeIndent st (Suc (nextLine sc)) \<Longrightarrow>
   fst (fenceCheck st mc (Suc (nextLine sc)) (lineStart st (Suc (nextLine sc)))
          (eMarks st ! Suc (nextLine sc)) (pos sc)) \<Longrightarrow>
   scanBody st endLine mc sc =
     \<lparr> nextLine = Suc (nextLine sc), start = lineStart st (Suc (nextLine sc)),
       max_pos = eMarks st ! Suc (nextLine sc),
       pos = snd (fenceCheck st mc (Suc (nextLine sc)) (lineStart st (Suc (nextLine sc)))
                   (eMarks st ! Suc (nextLine sc)) (pos sc)),
       auto_closed = True \<rparr>"
  by (subst scanBody.simps) (auto simp: negativeIndent_def lineStart_def)

lemma scanBody_continue:
  "Suc (nextLine sc) < endLine \<Longrightarrow>
   js_slice (src st) (int (start sc)) (int (max_pos sc)) \<noteq> ''...'' \<Longrightarrow>
   \<not> negativeIndent st (Suc (nextLine sc)) \<Longrightarrow>
   \<not> fst (fenceCheck st mc (Suc (nextLine sc)) (lineStart st (Suc (nextLine sc)))
          (eMarks st ! Suc (nextLine sc)) (pos sc)) \<Longrightarrow>
   scanBody st endLine mc sc =
     scanBody st endLine mc
       \<lparr> nextLine = Suc (nextLine sc), start = lineStart st (Suc (nextLine sc)),
         max_pos = eMarks st ! Suc (nextLine sc),
         pos = snd (fenceCheck st mc (Suc (nextLine sc)) (lineStart st (Suc (nextLine sc)))
                     (eMarks st ! Suc (nextLine sc)) (pos sc)),
         auto_closed = auto_closed sc \<rparr>"
  by (subst scanBody.simps) (auto simp: negativeIndent_def lineStart_def)

lemma scan_through:
  assumes "\<forall>n. nextLine sc < n \<and> n < k \<longrightarrow> ordinaryLine st mc n"
      and "nextLine sc < k" and "k \<le> endLine"
      and "js_slice (src st) (int (start sc)) (int (max_pos sc)) \<noteq> ''...''"
  shows "\<exists>sc'. scanBody st endLine mc sc = scanBody st endLine mc sc'
           \<and> Suc (nextLine sc') = k \<and> auto_closed sc' = auto_closed sc
           \<and> js_slice (src st) (int (start sc')) (int (max_pos sc')) \<noteq> ''...''"
  using assms
proof (induction "k - Suc (nextLine sc)" arbitrary: sc)
  case 0
  then have "Suc (nextLine sc) = k" by simp
  with "0.prems" show ?case by blast
next
  case (Suc d)
  let ?n = "Suc (nextLine sc)"
  let ?sc1 = "\<lparr> nextLine = ?n, start = lineStart st ?n, max_pos = eMarks st ! ?n,
       pos = snd (fenceCheck st mc ?n (lineStart st ?n) (eMarks st ! ?n) (pos sc)),
       auto_closed = auto_closed sc \<rparr>"
  from Suc.hyps have lt: "?n < k" by simp
  with Suc.prems have ord: "ordinaryLine st mc ?n" by simp
  then have nf: "\<not> fst (fenceCheck st mc ?n (lineStart st ?n) (eMarks st ! ?n) (pos sc))"
    by (simp add: ordinaryLine_def fenceCheck_closingFence)
  from lt Suc.prems have "?n < endLine" by simp
  with Suc.prems ord nf have step: "scanBody st endLine mc sc = scanBody st endLine mc ?sc1"
    by (simp add: scanBody_continue ordinaryLine_def)
  have d: "d = k - Suc (nextLine ?sc1)" using Suc.hyps by simp
  have p1: "\<forall>n. nextLine ?sc1 < n \<and> n < k \<longrightarrow> ordinaryLine st mc n"
    using Suc.prems by simp
  have p4: "js_slice (src st) (int (start ?sc1)) (int (max_pos ?sc1)) \<noteq> ''...''"
    using ord by (simp add: ordinaryLine_def lineText_def)
  from Suc.hyps(1) [OF d p1 _ Suc.prems(3) p4] lt
  obtain sc' where "scanBody st endLine mc ?sc1 = scanBody st endLine mc sc'"
    and "Suc (nextLine sc') = k" and "auto_closed sc' = auto_closed ?sc1"
    and "js_slice (src st) (int (start sc')) (int (max_pos sc')) \<noteq> ''...''"
    by auto
  with step show ?case by auto
qed

lemma frontMatter_silent:
  "fst (frontMatter st 0 endLine True)
     = (charAt (src st) 0 = Some CHR ''-'' \<and> 3 \<le> markerCount st)"
  by (auto simp: frontMatter_def Let_def markerCount_def lineStart_def)

lemma frontMatter_scan:
  assumes "fst (frontMatter st 0 e True)"
  shows "\<exists>sc0 p. frontMatter st 0 endLine False =
           emitToken st 0 sc0
             (scanBody st endLine (markerCount st)
                \<lparr> nextLine = 0, start = lineStart st 0, max_pos = eMarks st ! 0, pos = p,
                  auto_closed = False \<rparr>)"
  using assms
  by (auto simp: frontMatter_silent frontMatter_def Let_def markerCount_def lineStart_def)

lemma emitToken_line:
  "line (fst (snd (emitToken st sl sc0 sc))) = nextLine sc + (if auto_closed sc then 1 else 0)"
  "length (tokens (fst (snd (emitToken st sl sc0 sc)))) = Suc (length (tokens st))"
  by (simp_all add: emitToken_def Let_def push_def)

lemma opening_not_dots:
  assumes "3 \<le> markerCount st"
  shows "js_slice (src st) (int (lineStart st 0)) (int (eMarks st ! 0)) \<noteq> ''...''"
proof
  assume "js_slice (src st) (int (lineStart st 0)) (int (eMarks st ! 0)) = ''...''"
  then have "charAt (src st) (Suc (lineStart st 0)) = Some CHR ''.''"
    by (rule slice_dots_second)
  then have "fst (markerRun (src st) (lineStart st 0) (eMarks st ! 0) (lineStart st 0 + 1))
      = lineStart st 0 + 1"
    by (subst markerRun_unfold) simp
  then have "markerCount st = 1" by (simp add: markerCount_def)
  with assms show False by simp
qed

text \<open>
  Every line table that \<^verbatim>\<open>StateBlock\<close> builds is well formed at every line, the entry
  after the last line included.
\<close>

lemma lineTable_entries:
  "b0 + ind \<le> p \<Longrightarrow>
   (b, e, i, off) \<in> set (lineTable s p b0 ind ofs fnd) \<Longrightarrow>
   b + i \<le> e \<and> e \<le> length s \<and> charAt s e \<in> {None, Some (CHR 0x0A)}"
proof (induction s p b0 ind ofs fnd rule: lineTable.induct)
  case (1 s p b0 ind ofs fnd)
  from "1.prems"(2) have m:
    "(b, e, i, off) \<in> set
       (if p < length s then
          (if \<not> fnd \<and> isSpace (s ! p) then
             lineTable s (p + 1) b0 (ind + 1)
               (if s ! p = CHR 0x09 then ofs + 4 - ofs mod 4 else ofs + 1) False
           else if s ! p = CHR 0x0A then
             (b0, p, ind, int ofs) # lineTable s (p + 1) (p + 1) 0 0 False
           else if p = length s - 1 then
             (b0, p + 1, ind, int ofs) # lineTable s (p + 2) (p + 2) 0 0 False
           else lineTable s (p + 1) b0 ind ofs True)
        else [])"
    by (subst (asm) lineTable.simps) simp
  show ?case
  proof (cases "p < length s")
    case False
    with m show ?thesis by simp
  next
    case lt: True
    show ?thesis
    proof (cases "\<not> fnd \<and> isSpace (s ! p)")
      case True
      with m lt "1.IH"(1) "1.prems"(1) show ?thesis by simp
    next
      case ns: False
      show ?thesis
      proof (cases "s ! p = CHR 0x0A")
        case True
        with m lt ns "1.IH"(2) "1.prems"(1) show ?thesis
          by (auto simp: charAt_def)
      next
        case nl: False
        show ?thesis
        proof (cases "p = length s - 1")
          case True
          with m lt ns nl "1.IH"(3) "1.prems"(1) show ?thesis
            by (auto simp: charAt_def)
        next
          case False
          with m lt ns nl "1.IH"(4) "1.prems"(1) show ?thesis by auto
        qed
      qed
    qed
  qed
qed

lemma wfLine_StateBlock:
  assumes "n \<le> lineMax (StateBlock s)"
  shows "wfLine (StateBlock s) n"
proof (cases "n < length (lineTable s 0 0 0 0 False)")
  case True
  obtain b e i off where t: "lineTable s 0 0 0 0 False ! n = (b, e, i, off)"
    by (cases "lineTable s 0 0 0 0 False ! n") auto
  with True have "(b, e, i, off) \<in> set (lineTable s 0 0 0 0 False)"
    by (metis nth_mem)
  then have "b + i \<le> e \<and> e \<le> length s \<and> charAt s e \<in> {None, Some (CHR 0x0A)}"
    by (rule lineTable_entries [rotated]) simp
  with True t show ?thesis
    by (simp add: wfLine_def lineStart_def StateBlock_def Let_def nth_append)
next
  case False
  with assms have "n = length (lineTable s 0 0 0 0 False)"
    by (simp add: StateBlock_def Let_def)
  then show ?thesis
    by (simp add: wfLine_def lineStart_def StateBlock_def Let_def nth_append charAt_def)
qed

lemma fence_step:
  assumes "wfLine st (Suc (nextLine sc))"
      and "Suc (nextLine sc) < endLine"
      and "js_slice (src st) (int (start sc)) (int (max_pos sc)) \<noteq> ''...''"
      and "\<not> negativeIndent st (Suc (nextLine sc))"
  shows "((nextLine (scanBody st endLine mc sc) = Suc (nextLine sc)
             \<and> auto_closed (scanBody st endLine mc sc))
          = closingFence st mc (Suc (nextLine sc)))
       \<and> (\<not> closingFence st mc (Suc (nextLine sc)) \<longrightarrow>
            (\<exists>p. scanBody st endLine mc sc =
                   scanBody st endLine mc
                     \<lparr> nextLine = Suc (nextLine sc), start = lineStart st (Suc (nextLine sc)),
                       max_pos = eMarks st ! Suc (nextLine sc), pos = p,
                       auto_closed = auto_closed sc \<rparr>))"
proof (cases "closingFence st mc (Suc (nextLine sc))")
  case True
  with assms(1)
  have "fst (fenceCheck st mc (Suc (nextLine sc)) (lineStart st (Suc (nextLine sc)))
          (eMarks st ! Suc (nextLine sc)) (pos sc))"
    by (simp add: fenceCheck_closingFence)
  with assms True show ?thesis by (simp add: scanBody_found)
next
  case False
  let ?sc1 = "\<lparr> nextLine = Suc (nextLine sc), start = lineStart st (Suc (nextLine sc)),
       max_pos = eMarks st ! Suc (nextLine sc),
       pos = snd (fenceCheck st mc (Suc (nextLine sc)) (lineStart st (Suc (nextLine sc)))
                   (eMarks st ! Suc (nextLine sc)) (pos sc)),
       auto_closed = auto_closed sc \<rparr>"
  from assms(1) False
  have "\<not> fst (fenceCheck st mc (Suc (nextLine sc)) (lineStart st (Suc (nextLine sc)))
          (eMarks st ! Suc (nextLine sc)) (pos sc))"
    by (simp add: fenceCheck_closingFence)
  with assms have step: "scanBody st endLine mc sc = scanBody st endLine mc ?sc1"
    by (simp add: scanBody_continue)
  have "nextLine ?sc1 < nextLine (scanBody st endLine mc ?sc1)"
    by (rule scanBody_nextLine)
  with step have "nextLine (scanBody st endLine mc sc) \<noteq> Suc (nextLine sc)" by simp
  with False step show ?thesis by blast
qed

lemma frontMatter_bodyScan:
  assumes "fst (frontMatter st 0 e True)"
  shows "\<exists>sc0. frontMatter st 0 endLine False = emitToken st 0 sc0 (bodyScan st endLine)"
  using assms
  by (auto simp: frontMatter_silent frontMatter_def Let_def markerCount_def lineStart_def
        bodyScan_def openingScan_def)

lemma openingScan_simps:
  "nextLine (openingScan st) = 0" "start (openingScan st) = lineStart st 0"
  "max_pos (openingScan st) = eMarks st ! 0" "auto_closed (openingScan st) = False"
  by (simp_all add: openingScan_def)

section \<open>The claims about parsing, extraction and authors\<close>

text \<open>
  C1. The claim: no exception escapes the parse or the render boundary, and a parse that
  gives no mapping renders as the empty string. The code breaks it: for the document
  made of an opening and a closing fence with nothing between them, the token's markup
  is the two fences, \<^verbatim>\<open>parseFrontMatterStr\<close> hands the text of the first fence to
  \<^verbatim>\<open>yaml.load\<close>, and when that returns \<^verbatim>\<open>null\<close> (as js-yaml does for an empty document)
  the test \<^verbatim>\<open>typeof(frontUnknown) === "object"\<close> lets \<^verbatim>\<open>null\<close> through and the first
  property read throws a TypeError.
\<close>

theorem render_null_raises:
  assumes "load ''---\<newline>'' = Inr JNull"
  shows "renderFrontMatter load dump
           (tokens (fst (snd (frontMatter (StateBlock ''---\<newline>---\<newline>'') 0 2 False)))) 0
         = Inl TypeError"
  using assms
  by (simp add: frontMatter_empty_doc renderFrontMatter_def parseFrontMatterStr_def
        stripFence_empty_doc extractTitleBlock_def readStr_def del: stripFence.simps)

theorem render_null_raises_witness:
  "(\<lambda>s. Inr JNull) ''---\<newline>'' = (Inr JNull :: error + jsval)
   \<and> renderFrontMatter (\<lambda>s. Inr JNull) (\<lambda>v. Inr [])
        (tokens (fst (snd (frontMatter (StateBlock ''---\<newline>---\<newline>'') 0 2 False)))) 0
      = Inl TypeError"
  using render_null_raises [of "\<lambda>s. Inr JNull" "\<lambda>v. Inr []"] by simp

text \<open>
  C2. The claim: the keys of the populated fields of the title block and the keys of the
  residual mapping are disjoint and together are the keys of the parsed mapping. It
  fails for a mapping that has both \<^verbatim>\<open>author\<close> and \<^verbatim>\<open>authors\<close>: both keys are deleted,
  one value only reaches the title block.
\<close>

theorem title_block_keys_counterexample:
  "extractTitleBlock (JObj [(''author'', JStr ''A''), (''authors'', JStr ''B'')])
     = Inr (\<lparr> title = None, subtitle = None, abstract = None, date = None, modified = None,
              doi = None, authors = Some [\<lparr> name = ''A'', affil = None, orcid = None \<rparr>] \<rparr>,
            JObj [])
   \<and> populatedKeys (JObj [(''author'', JStr ''A''), (''authors'', JStr ''B'')])
        \<lparr> title = None, subtitle = None, abstract = None, date = None, modified = None,
          doi = None, authors = Some [\<lparr> name = ''A'', affil = None, orcid = None \<rparr>] \<rparr>
       \<union> keysOf (JObj [])
     \<noteq> keysOf (JObj [(''author'', JStr ''A''), (''authors'', JStr ''B'')])"
  by (simp add: extract_JObj handed_def residual_def dropStr_def strField_def parseAuthor_JStr
        populatedKeys_def authorKey_def)

text \<open>
  C2, as amended. When the extraction returns, the residual mapping has the keys of the
  parsed mapping but the keys among title, subtitle, abstract, date, date-modified, doi
  that held a string, and but \<^verbatim>\<open>author\<close> and \<^verbatim>\<open>authors\<close>; no key is both a populated
  field's and the residual mapping's; both sets hold keys of the parsed mapping only; and
  a key of the parsed mapping that is in neither is \<^verbatim>\<open>author\<close> or \<^verbatim>\<open>authors\<close>.
\<close>

theorem title_block_keys:
  assumes "extractTitleBlock (JObj kvs) = Inr (tb, res)"
  shows "keysOf res = keysOf (JObj kvs)
           - {k. k \<in> set [''title'', ''subtitle'', ''abstract'', ''date'', ''date-modified'', ''doi'']
                 \<and> strField kvs k \<noteq> None}
           - {''author'', ''authors''}
         \<and> populatedKeys (JObj kvs) tb \<inter> keysOf res = {}
         \<and> populatedKeys (JObj kvs) tb \<union> keysOf res \<subseteq> keysOf (JObj kvs)
         \<and> keysOf (JObj kvs) - (populatedKeys (JObj kvs) tb \<union> keysOf res)
             \<subseteq> {''author'', ''authors''}"
proof -
  let ?S = "{k. k \<in> set [''title'', ''subtitle'', ''abstract'', ''date'', ''date-modified'', ''doi'']
                 \<and> \<not> (strField kvs k = None)}"
  from assms obtain as where pa: "parseAuthor (handed kvs) = Inr as"
    and tb: "tb = \<lparr> title = strField kvs ''title'', subtitle = strField kvs ''subtitle'',
              abstract = strField kvs ''abstract'', date = strField kvs ''date'',
              modified = strField kvs ''date-modified'', doi = strField kvs ''doi'',
              authors = Some as \<rparr>"
    and res: "res = JObj (residual kvs)"
    by (cases "parseAuthor (handed kvs)") (simp_all add: extract_JObj)
  let ?A = "case as of [] \<Rightarrow> {} | a # x \<Rightarrow> {authorKey (JObj kvs)}"
  have kr: "keysOf res = keysOf (JObj kvs) - ?S - {''author'', ''authors''}"
    by (simp only: res keysOf.simps set_map keys_residual)
  have p: "populatedKeys (JObj kvs) tb = ?S \<union> ?A"
    unfolding set_ifs [where f = "\<lambda>k. strField kvs k = None"]
    by (simp only: populatedKeys_def tb titleBlock.simps option.case)
  have a1: "?A \<subseteq> {''author'', ''authors''}"
    using authorKey_cases [of "JObj kvs"]
    by (cases as) (simp_all only: list.case empty_subsetI, blast+)
  have s1: "?S \<subseteq> keysOf (JObj kvs)"
    using strField_key [of kvs] by (simp only: keysOf.simps set_map) blast
  have a2: "?A \<subseteq> keysOf (JObj kvs)"
  proof (cases as)
    case Nil
    then show ?thesis by simp
  next
    case (Cons a x)
    with pa have "authorKey (JObj kvs) \<in> fst ` set kvs" by (simp add: authorKey_in_keys)
    with Cons show ?thesis by simp
  qed
  from partition_sets [OF kr p a1 s1 a2] kr show ?thesis by simp
qed

theorem title_block_keys_witness:
  "extractTitleBlock (JObj [(''title'', JStr ''T''), (''date'', JNum 3), (''author'', JStr ''A'')])
     = Inr (\<lparr> title = Some ''T'', subtitle = None, abstract = None, date = None,
              modified = None, doi = None,
              authors = Some [\<lparr> name = ''A'', affil = None, orcid = None \<rparr>] \<rparr>,
            JObj [(''date'', JNum 3)])
   \<and> populatedKeys (JObj [(''title'', JStr ''T''), (''date'', JNum 3), (''author'', JStr ''A'')])
        \<lparr> title = Some ''T'', subtitle = None, abstract = None, date = None,
          modified = None, doi = None,
          authors = Some [\<lparr> name = ''A'', affil = None, orcid = None \<rparr>] \<rparr>
       \<inter> keysOf (JObj [(''date'', JNum 3)]) = {}"
proof -
  have h: "extractTitleBlock (JObj [(''title'', JStr ''T''), (''date'', JNum 3), (''author'', JStr ''A'')])
     = Inr (\<lparr> title = Some ''T'', subtitle = None, abstract = None, date = None,
              modified = None, doi = None,
              authors = Some [\<lparr> name = ''A'', affil = None, orcid = None \<rparr>] \<rparr>,
            JObj [(''date'', JNum 3)])"
    by (simp add: extract_JObj handed_def residual_def dropStr_def strField_def parseAuthor_JStr)
  from title_block_keys [OF h] have
    "populatedKeys (JObj [(''title'', JStr ''T''), (''date'', JNum 3), (''author'', JStr ''A'')])
        \<lparr> title = Some ''T'', subtitle = None, abstract = None, date = None,
          modified = None, doi = None,
          authors = Some [\<lparr> name = ''A'', affil = None, orcid = None \<rparr>] \<rparr>
       \<inter> keysOf (JObj [(''date'', JNum 3)]) = {}"
    by (rule conjunct1 [OF conjunct2])
  with h show ?thesis by (rule conjI)
qed

text \<open>
  C3. The claim: when both \<^verbatim>\<open>author\<close> and \<^verbatim>\<open>authors\<close> are present, both are removed and
  the value of \<^verbatim>\<open>authors\<close> goes to the author normalizer. In the code the value of
  \<^verbatim>\<open>author\<close> goes there when it is truthy: here the authors of the title block come from
  \<^verbatim>\<open>"A"\<close>, and the normalizer gives something else on \<^verbatim>\<open>"B"\<close>.
\<close>

theorem author_precedence_counterexample:
  "extractTitleBlock (JObj [(''author'', JStr ''A''), (''authors'', JStr ''B'')])
     = Inr (\<lparr> title = None, subtitle = None, abstract = None, date = None, modified = None,
              doi = None, authors = Some [\<lparr> name = ''A'', affil = None, orcid = None \<rparr>] \<rparr>,
            JObj [])
   \<and> parseAuthor (JStr ''B'') \<noteq> Inr [\<lparr> name = ''A'', affil = None, orcid = None \<rparr>]"
  by (simp add: extract_JObj handed_def residual_def dropStr_def strField_def parseAuthor_JStr)

text \<open>
  C3, as amended. When both keys are present, the author normalizer receives the value
  of \<^verbatim>\<open>author\<close> if that value is truthy and the value of \<^verbatim>\<open>authors\<close> otherwise; if the
  normalizer throws, so does the extraction; if it returns, its result is the title
  block's authors and neither key is in the residual mapping.
\<close>

theorem author_precedence:
  assumes "map_of kvs ''author'' = Some a" and "map_of kvs ''authors'' = Some b"
  shows "(\<forall>e. parseAuthor (if truthy a then a else b) = Inl e
             \<longrightarrow> extractTitleBlock (JObj kvs) = Inl e)
       \<and> (\<forall>as. parseAuthor (if truthy a then a else b) = Inr as
             \<longrightarrow> (\<exists>tb res. extractTitleBlock (JObj kvs) = Inr (tb, res)
                    \<and> authors tb = Some as
                    \<and> ''author'' \<notin> keysOf res \<and> ''authors'' \<notin> keysOf res))"
proof -
  have h: "handed kvs = (if truthy a then a else b)"
    using assms by (simp add: handed_def)
  have r: "''author'' \<notin> fst ` set (residual kvs) \<and> ''authors'' \<notin> fst ` set (residual kvs)"
    by (simp only: keys_residual) blast
  show ?thesis using r by (simp add: extract_JObj h)
qed

theorem author_precedence_witness:
  "map_of [(''author'', JStr ''''), (''authors'', JStr ''B'')] ''author'' = Some (JStr '''')
   \<and> map_of [(''author'', JStr ''''), (''authors'', JStr ''B'')] ''authors'' = Some (JStr ''B'')
   \<and> parseAuthor (JStr ''B'') = Inr [\<lparr> name = ''B'', affil = None, orcid = None \<rparr>]
   \<and> (\<exists>tb res.
         extractTitleBlock (JObj [(''author'', JStr ''''), (''authors'', JStr ''B'')])
           = Inr (tb, res)
         \<and> authors tb = Some [\<lparr> name = ''B'', affil = None, orcid = None \<rparr>]
         \<and> ''author'' \<notin> keysOf res \<and> ''authors'' \<notin> keysOf res)"
  using author_precedence
          [of "[(''author'', JStr ''''), (''authors'', JStr ''B'')]" "JStr ''''" "JStr ''B''"]
  by (simp add: parseAuthor_JStr)

text \<open>
  C7. The claim: a string under \<^verbatim>\<open>affiliation\<close> is the whole affiliation list. The code
  tests the string for truthiness, so an empty string there falls through to the second
  tier: the claim gives the list of the empty string, the code the list of \<^verbatim>\<open>"X"\<close>.
\<close>

theorem affiliation_tiers_counterexample:
  "affiliationsOf (JObj [(''affiliation'', JStr []), (''affiliations'', JArr [JStr ''X''])])
     \<noteq> Inr [[]]"
  by (simp add: affiliationsOf_def str_def affilEntry_def)

text \<open>
  C7, as amended. For a mapping-shaped author item none of whose affiliation entries is
  \<^verbatim>\<open>null\<close> or \<^verbatim>\<open>undefined\<close>: if \<^verbatim>\<open>affiliation\<close> holds a non-empty string, the list is
  that string; otherwise, if \<^verbatim>\<open>affiliations\<close> holds a truthy value, it is taken as a
  sequence (a value that is no array as the sequence of itself) and each entry gives
  itself when it is a string, its \<^verbatim>\<open>name\<close> when it is a mapping with a string name, and
  nothing otherwise; otherwise the list is empty. The item gives one author with that
  list.
\<close>

theorem affiliation_tiers:
  assumes "JNull \<notin> set (affilEntries kvs)" and "JUndefined \<notin> set (affilEntries kvs)"
  shows "affiliationsOf (JObj kvs) = Inr (twoTier kvs)
       \<and> (\<exists>a. authorItem (JObj kvs) = Inr [a] \<and> affil a = Some (twoTier kvs))"
  using affiliationsOf_twoTier [OF assms]
  by (simp add: authorItem_def str_JObj)

theorem affiliation_tiers_witness:
  "JNull \<notin> set (affilEntries [(''name'', JStr ''A''),
       (''affiliations'', JArr [JStr ''X'', JObj [(''name'', JStr ''Y'')], JNum 5])])
   \<and> JUndefined \<notin> set (affilEntries [(''name'', JStr ''A''),
       (''affiliations'', JArr [JStr ''X'', JObj [(''name'', JStr ''Y'')], JNum 5])])
   \<and> affiliationsOf (JObj [(''name'', JStr ''A''),
       (''affiliations'', JArr [JStr ''X'', JObj [(''name'', JStr ''Y'')], JNum 5])])
     = Inr [''X'', ''Y'']"
  using affiliation_tiers [of "[(''name'', JStr ''A''),
       (''affiliations'', JArr [JStr ''X'', JObj [(''name'', JStr ''Y'')], JNum 5])]"]
  by (simp add: affilEntries_def twoTier_def)

text \<open>
  C8. The claim: the author normalizer gives the same record for \<^verbatim>\<open>"A"\<close> and for
  \<^verbatim>\<open>{name: "A"}\<close>, with an empty affiliation list. The two records differ: the first
  has no affiliation list, the second an empty one.
\<close>

theorem author_scalar_mapping_counterexample:
  "parseAuthor (JStr ''A'') \<noteq> parseAuthor (JObj [(''name'', JStr ''A'')])"
  by (simp add: parseAuthor_def authorItem_def affiliationsOf_def str_def)

text \<open>
  C8, as amended. Both inputs give one author named \<^verbatim>\<open>A\<close> with no orcid; the scalar's
  has no affiliation list and the mapping's has an empty one, and the two render alike.
\<close>

theorem author_scalar_mapping:
  "parseAuthor (JStr ''A'') = Inr [\<lparr> name = ''A'', affil = None, orcid = None \<rparr>]
   \<and> parseAuthor (JObj [(''name'', JStr ''A'')])
       = Inr [\<lparr> name = ''A'', affil = Some [], orcid = None \<rparr>]
   \<and> authorBlocks (Some [\<lparr> name = ''A'', affil = None, orcid = None \<rparr>])
       = authorBlocks (Some [\<lparr> name = ''A'', affil = Some [], orcid = None \<rparr>])"
  by (simp add: parseAuthor_def authorItem_def affiliationsOf_def str_def authorBlocks_def)

section \<open>The claims about the scan on one document and about its effect on the state\<close>

text \<open>
  C4. The claim, for the document of three front-matter lines, an empty line and a body
  line: the token's raw inner content is the text \<^verbatim>\<open>title: Foo\<close> followed by a line
  feed. The token's \<^verbatim>\<open>meta\<close> ends before the line feed that precedes the closing
  fence.
\<close>

theorem title_example_counterexample:
  "map meta (tokens (fst (snd
       (frontMatter (StateBlock ''---\<newline>title: Foo\<newline>---\<newline>\<newline>Body'') 0 5 False))))
     \<noteq> [Some ''title: Foo\<newline>'']"
  by (simp add: frontMatter_title_doc)

text \<open>
  C4, as amended. On that document the scan succeeds; the body loop, started after the
  opening line with a marker count of 3, finds the closing fence on line 2, so that the
  block is lines 0 to 2 and the state's line becomes 3; one token is
  emitted, whose raw inner content is exactly \<^verbatim>\<open>title: Foo\<close> and whose markup is the
  text of the three lines without the final line feed; and, for a loader that reads the
  markup without its closing fence as the mapping of \<^verbatim>\<open>title\<close> to \<^verbatim>\<open>Foo\<close>, rendering
  the token gives the heading \<^verbatim>\<open><h1>Foo</h1>\<close>, a line feed and the dump of the empty
  residual mapping inside \<^verbatim>\<open><pre>\<close>; the title block has no metadata block.
\<close>

theorem title_example:
  assumes "load ''---\<newline>title: Foo\<newline>'' = Inr (JObj [(''title'', JStr ''Foo'')])"
      and "dump (JObj []) = Inr d"
  shows \<open>fst (frontMatter (StateBlock ''---\<newline>title: Foo\<newline>---\<newline>\<newline>Body'') 0
              (lineMax (StateBlock ''---\<newline>title: Foo\<newline>---\<newline>\<newline>Body'')) False)
       \<and> scanBody (StateBlock ''---\<newline>title: Foo\<newline>---\<newline>\<newline>Body'')
             (lineMax (StateBlock ''---\<newline>title: Foo\<newline>---\<newline>\<newline>Body'')) 3
             \<lparr> nextLine = 0, start = 0, max_pos = 3, pos = 3, auto_closed = False \<rparr>
           = \<lparr> nextLine = 2, start = 15, max_pos = 18, pos = 18, auto_closed = True \<rparr>
       \<and> line (fst (snd (frontMatter (StateBlock ''---\<newline>title: Foo\<newline>---\<newline>\<newline>Body'') 0
              (lineMax (StateBlock ''---\<newline>title: Foo\<newline>---\<newline>\<newline>Body'')) False))) = 3
       \<and> map meta (tokens (fst (snd (frontMatter (StateBlock ''---\<newline>title: Foo\<newline>---\<newline>\<newline>Body'') 0
              (lineMax (StateBlock ''---\<newline>title: Foo\<newline>---\<newline>\<newline>Body'')) False))))
           = [Some ''title: Foo'']
       \<and> map markup (tokens (fst (snd (frontMatter (StateBlock ''---\<newline>title: Foo\<newline>---\<newline>\<newline>Body'') 0
              (lineMax (StateBlock ''---\<newline>title: Foo\<newline>---\<newline>\<newline>Body'')) False))))
           = [''---\<newline>title: Foo\<newline>---'']
       \<and> renderFrontMatter load dump
             (tokens (fst (snd (frontMatter (StateBlock ''---\<newline>title: Foo\<newline>---\<newline>\<newline>Body'') 0
              (lineMax (StateBlock ''---\<newline>title: Foo\<newline>---\<newline>\<newline>Body'')) False)))) 0
           = Inr (''<h1>Foo</h1>'' @ ''\<newline><pre>\<newline>'' @ d @ ''\<newline></pre>'')
       \<and> (\<exists>tb. extractTitleBlock (JObj [(''title'', JStr ''Foo'')]) = Inr (tb, JObj [])
               \<and> metadataBlocks tb = [] \<and> renderTitle tb = ''<h1>Foo</h1>'')\<close>
proof -
  have e: "extractTitleBlock (JObj [(''title'', JStr ''Foo'')])
      = Inr (\<lparr> title = Some ''Foo'', subtitle = None, abstract = None, date = None,
               modified = None, doi = None, authors = Some [] \<rparr>, JObj [])"
    by (simp add: extract_JObj handed_def residual_def dropStr_def strField_def
          parseAuthor_undefined)
  have m: "metadataBlocks \<lparr> title = Some ''Foo'', subtitle = None, abstract = None, date = None,
               modified = None, doi = None, authors = Some [] \<rparr> = []"
    by (simp add: metadataBlocks_def authorBlocks_def)
  have t: "renderTitle \<lparr> title = Some ''Foo'', subtitle = None, abstract = None, date = None,
               modified = None, doi = None, authors = Some [] \<rparr> = ''<h1>Foo</h1>''"
    by (simp add: renderTitle_def m)
  have r: "renderFrontMatter load dump
      [\<lparr> ttype = ''front_matter'', tag = [], nesting = 0, level = 0,
           content = [], markup = ''---\<newline>title: Foo\<newline>---'', info = [],
           tmap = Some (0, 18), meta = Some ''title: Foo'', block = True,
           hidden = True \<rparr>] 0
      = Inr (''<h1>Foo</h1>'' @ ''\<newline><pre>\<newline>'' @ d @ ''\<newline></pre>'')"
    using assms
    by (simp add: renderFrontMatter_def parseFrontMatterStr_def stripFence_title_doc e t
          del: stripFence.simps)
  show ?thesis
    using e m t r by (simp add: lineMax_title_doc frontMatter_title_doc scanBody_title_doc)
qed

theorem title_example_witness:
  \<open>(\<lambda>s. Inr (JObj [(''title'', JStr ''Foo'')])) ''---\<newline>title: Foo\<newline>''
      = (Inr (JObj [(''title'', JStr ''Foo'')]) :: error + jsval)
   \<and> (\<lambda>v. Inr ''{}\<newline>'') (JObj []) = (Inr ''{}\<newline>'' :: error + string)
   \<and> renderFrontMatter (\<lambda>s. Inr (JObj [(''title'', JStr ''Foo'')])) (\<lambda>v. Inr ''{}\<newline>'')
        (tokens (fst (snd (frontMatter (StateBlock ''---\<newline>title: Foo\<newline>---\<newline>\<newline>Body'') 0
           (lineMax (StateBlock ''---\<newline>title: Foo\<newline>---\<newline>\<newline>Body'')) False)))) 0
      = Inr ''<h1>Foo</h1>\<newline><pre>\<newline>{}\<newline>\<newline></pre>''\<close>
  using title_example [of "\<lambda>s. Inr (JObj [(''title'', JStr ''Foo'')])" "\<lambda>v. Inr ''{}\<newline>''" "''{}\<newline>''"]
  by simp

text \<open>
  C9. When the scan reports no match, the state it leaves is the state it was given and
  the callback has not been called; when it reports a match, the line bound and the
  parent type of the state it leaves are those of the state it was given (in between,
  \<^verbatim>\<open>emitToken\<close> sets the parent type to \<^verbatim>\<open>root\<close> and the line bound to the end line
  found, and sets both back after the token is pushed).
\<close>

theorem frontMatter_frame:
  "(\<not> fst (frontMatter st startLine endLine silent) \<longrightarrow>
       fst (snd (frontMatter st startLine endLine silent)) = st
       \<and> snd (snd (frontMatter st startLine endLine silent)) = [])
   \<and> (fst (frontMatter st startLine endLine silent) \<longrightarrow>
       lineMax (fst (snd (frontMatter st startLine endLine silent))) = lineMax st
       \<and> parentType (fst (snd (frontMatter st startLine endLine silent))) = parentType st)"
  by (simp add: frontMatter_def Let_def emitToken_frame)

theorem frontMatter_frame_witness:
  "\<not> fst (frontMatter (StateBlock ''--\<newline>a'') 0 2 False)
   \<and> fst (snd (frontMatter (StateBlock ''--\<newline>a'') 0 2 False)) = StateBlock ''--\<newline>a''
   \<and> fst (frontMatter (StateBlock ''---\<newline>title: Foo\<newline>---\<newline>\<newline>Body'') 0 5 False)
   \<and> lineMax (fst (snd
         (frontMatter (StateBlock ''---\<newline>title: Foo\<newline>---\<newline>\<newline>Body'') 0 5 False)))
       = lineMax (StateBlock ''---\<newline>title: Foo\<newline>---\<newline>\<newline>Body'')
   \<and> parentType (fst (snd
         (frontMatter (StateBlock ''---\<newline>title: Foo\<newline>---\<newline>\<newline>Body'') 0 5 False)))
       = parentType (StateBlock ''---\<newline>title: Foo\<newline>---\<newline>\<newline>Body'')"
proof -
  have n: "\<not> fst (frontMatter (StateBlock ''--\<newline>a'') 0 2 False)"
    by (simp add: frontMatter_no_match)
  have y: "fst (frontMatter (StateBlock ''---\<newline>title: Foo\<newline>---\<newline>\<newline>Body'') 0 5 False)"
    by (simp add: frontMatter_title_doc)
  show ?thesis
    using n y
      frontMatter_frame [of "StateBlock ''--\<newline>a''" 0 2 False]
      frontMatter_frame [of "StateBlock ''---\<newline>title: Foo\<newline>---\<newline>\<newline>Body''" 0 5 False]
    by blast
qed

section \<open>The claims about the body scan\<close>

text \<open>
  C5. The claim: during the body scan a line is accepted as the closing fence if and only
  if the four conditions hold, and a line failing one is passed over. The loop has exits
  that come before the fence test. In the document below, line 2 is three markers and
  meets the four conditions (with the run of the opening line), and its line table is
  well formed; line 1 is three full stops, so the loop ends when it comes to line 2,
  without setting \<^verbatim>\<open>auto_closed\<close>, and the state's line is 2.
\<close>

theorem closing_fence_counterexample:
  "fst (frontMatter (StateBlock ''---\<newline>...\<newline>---\<newline>x'') 0 4 True)
   \<and> lineMax (StateBlock ''---\<newline>...\<newline>---\<newline>x'') = 4
   \<and> wfLine (StateBlock ''---\<newline>...\<newline>---\<newline>x'') 2
   \<and> closingFence (StateBlock ''---\<newline>...\<newline>---\<newline>x'')
         (markerCount (StateBlock ''---\<newline>...\<newline>---\<newline>x'')) 2
   \<and> nextLine (bodyScan (StateBlock ''---\<newline>...\<newline>---\<newline>x'') 4) = 2
   \<and> auto_closed (bodyScan (StateBlock ''---\<newline>...\<newline>---\<newline>x'') 4) = False
   \<and> line (fst (snd (frontMatter (StateBlock ''---\<newline>...\<newline>---\<newline>x'') 0 4 False))) = 2"
  by code_simp

text \<open>
  C5, as amended. Let the opening fence at line 0 be valid and let line \<open>n\<close>, below the
  bound, be a line that the body scan comes to examine: every body line before it is
  passed over (it is well formed, is no closing fence, is not a non-empty line indented
  less than the enclosing block, and its content is not three full stops), and line \<open>n\<close>
  itself is well formed and is not a non-empty line indented less than the enclosing
  block. Then the body loop of \<^verbatim>\<open>frontMatter\<close> ends at line \<open>n\<close> with \<^verbatim>\<open>auto_closed\<close> set
  if and only if the four conditions hold at line \<open>n\<close>, the run being measured against the
  marker count of the opening line; when they hold, the state's line becomes the line
  after \<open>n\<close>; when one fails, the loop goes on from line \<open>n\<close> and ends at a later line.
\<close>

theorem closing_fence_accepted:
  assumes "fst (frontMatter st 0 endLine True)"
      and "0 < n" and "n < endLine"
      and "\<forall>j. 0 < j \<and> j < n \<longrightarrow>
             wfLine st j \<and> \<not> closingFence st (markerCount st) j
             \<and> \<not> negativeIndent st j \<and> lineText st j \<noteq> ''...''"
      and "wfLine st n"
      and "\<not> negativeIndent st n"
  shows "((nextLine (bodyScan st endLine) = n \<and> auto_closed (bodyScan st endLine))
          = closingFence st (markerCount st) n)
       \<and> (closingFence st (markerCount st) n \<longrightarrow>
            fst (frontMatter st 0 endLine False)
            \<and> line (fst (snd (frontMatter st 0 endLine False))) = Suc n)
       \<and> (\<not> closingFence st (markerCount st) n \<longrightarrow>
            n < nextLine (bodyScan st endLine)
            \<and> (\<exists>p. bodyScan st endLine =
                   scanBody st endLine (markerCount st)
                     \<lparr> nextLine = n, start = lineStart st n, max_pos = eMarks st ! n,
                       pos = p, auto_closed = False \<rparr>))"
proof -
  let ?mc = "markerCount st"
  from frontMatter_bodyScan [OF assms(1)] obtain sc0 where
    fm: "frontMatter st 0 endLine False = emitToken st 0 sc0 (bodyScan st endLine)"
    by blast
  from assms(1) have "3 \<le> markerCount st" by (simp add: frontMatter_silent)
  then have nd: "js_slice (src st) (int (start (openingScan st)))
      (int (max_pos (openingScan st))) \<noteq> ''...''"
    by (simp add: opening_not_dots openingScan_simps)
  have ord: "\<forall>j. nextLine (openingScan st) < j \<and> j < n \<longrightarrow> ordinaryLine st ?mc j"
    using assms(4) by (simp add: ordinaryLine_def openingScan_simps)
  have lt: "nextLine (openingScan st) < n" using assms(2) by (simp add: openingScan_simps)
  have le: "n \<le> endLine" using assms(3) by simp
  from scan_through [OF ord lt le nd] obtain sc' where
    eq: "bodyScan st endLine = scanBody st endLine ?mc sc'"
    and nl: "Suc (nextLine sc') = n" and ac: "auto_closed sc' = False"
    and nd': "js_slice (src st) (int (start sc')) (int (max_pos sc')) \<noteq> ''...''"
    unfolding bodyScan_def by (auto simp: openingScan_simps)
  have w: "wfLine st (Suc (nextLine sc'))" using assms(5) nl by simp
  have b: "Suc (nextLine sc') < endLine" using assms(3) nl by simp
  have ni: "\<not> negativeIndent st (Suc (nextLine sc'))" using assms(6) nl by simp
  from fence_step [OF w b nd' ni, of ?mc]
  have iff: "(nextLine (bodyScan st endLine) = n \<and> auto_closed (bodyScan st endLine))
          = closingFence st ?mc n"
    and cont: "\<not> closingFence st ?mc n \<Longrightarrow>
            \<exists>p. bodyScan st endLine =
                   scanBody st endLine ?mc
                     \<lparr> nextLine = n, start = lineStart st n, max_pos = eMarks st ! n,
                       pos = p, auto_closed = False \<rparr>"
    unfolding eq nl ac by blast+
  have later: "n < nextLine (bodyScan st endLine)" if "\<not> closingFence st ?mc n"
  proof -
    from cont [OF that] obtain p where
      "bodyScan st endLine =
         scanBody st endLine ?mc
           \<lparr> nextLine = n, start = lineStart st n, max_pos = eMarks st ! n,
             pos = p, auto_closed = False \<rparr>"
      by blast
    moreover have "nextLine \<lparr> nextLine = n, start = lineStart st n, max_pos = eMarks st ! n,
             pos = p, auto_closed = False \<rparr>
        < nextLine (scanBody st endLine ?mc
           \<lparr> nextLine = n, start = lineStart st n, max_pos = eMarks st ! n,
             pos = p, auto_closed = False \<rparr>)"
      by (rule scanBody_nextLine)
    ultimately show ?thesis by simp
  qed
  have acc: "fst (frontMatter st 0 endLine False)
      \<and> line (fst (snd (frontMatter st 0 endLine False))) = Suc n"
    if "closingFence st ?mc n"
    using that iff by (simp add: fm emitToken_frame emitToken_line)
  from iff cont later acc show ?thesis by blast
qed

theorem closing_fence_accepted_witness:
  "fst (frontMatter (StateBlock ''---\<newline>title: Foo\<newline>---\<newline>\<newline>Body'') 0 5 True)
   \<and> wfLine (StateBlock ''---\<newline>title: Foo\<newline>---\<newline>\<newline>Body'') 2
   \<and> \<not> negativeIndent (StateBlock ''---\<newline>title: Foo\<newline>---\<newline>\<newline>Body'') 2
   \<and> closingFence (StateBlock ''---\<newline>title: Foo\<newline>---\<newline>\<newline>Body'')
         (markerCount (StateBlock ''---\<newline>title: Foo\<newline>---\<newline>\<newline>Body'')) 2
   \<and> nextLine (bodyScan (StateBlock ''---\<newline>title: Foo\<newline>---\<newline>\<newline>Body'') 5) = 2
   \<and> auto_closed (bodyScan (StateBlock ''---\<newline>title: Foo\<newline>---\<newline>\<newline>Body'') 5)
   \<and> line (fst (snd
         (frontMatter (StateBlock ''---\<newline>title: Foo\<newline>---\<newline>\<newline>Body'') 0 5 False))) = 3
   \<and> wfLine (StateBlock ''---\<newline>title: Foo\<newline>---\<newline>\<newline>Body'') 1
   \<and> \<not> negativeIndent (StateBlock ''---\<newline>title: Foo\<newline>---\<newline>\<newline>Body'') 1
   \<and> \<not> closingFence (StateBlock ''---\<newline>title: Foo\<newline>---\<newline>\<newline>Body'')
         (markerCount (StateBlock ''---\<newline>title: Foo\<newline>---\<newline>\<newline>Body'')) 1
   \<and> 1 < nextLine (bodyScan (StateBlock ''---\<newline>title: Foo\<newline>---\<newline>\<newline>Body'') 5)"
proof -
  let ?st = "StateBlock ''---\<newline>title: Foo\<newline>---\<newline>\<newline>Body''"
  have o: "fst (frontMatter ?st 0 5 True)" by code_simp
  have l1: "wfLine ?st 1 \<and> \<not> closingFence ?st (markerCount ?st) 1
      \<and> \<not> negativeIndent ?st 1 \<and> lineText ?st 1 \<noteq> ''...''"
    by code_simp
  have w2: "wfLine ?st 2" and n2: "\<not> negativeIndent ?st 2"
    and c2: "closingFence ?st (markerCount ?st) 2"
    by code_simp+
  have e2: "\<And>j::nat. 0 < j \<and> j < 2 \<Longrightarrow> j = 1" by arith
  have a2: "\<forall>j. 0 < j \<and> j < 2 \<longrightarrow>
             wfLine ?st j \<and> \<not> closingFence ?st (markerCount ?st) j
             \<and> \<not> negativeIndent ?st j \<and> lineText ?st j \<noteq> ''...''"
    using l1 e2 by blast
  have a1: "\<forall>j. 0 < j \<and> j < (1::nat) \<longrightarrow>
             wfLine ?st j \<and> \<not> closingFence ?st (markerCount ?st) j
             \<and> \<not> negativeIndent ?st j \<and> lineText ?st j \<noteq> ''...''"
    by simp
  have k2: "(0::nat) < 2" "(2::nat) < 5" and k1: "(0::nat) < 1" "(1::nat) < 5" by simp_all
  from l1 have w1: "wfLine ?st 1" and n1: "\<not> negativeIndent ?st 1"
    and c1: "\<not> closingFence ?st (markerCount ?st) 1"
    by blast+
  from closing_fence_accepted [OF o k2 a2 w2 n2] c2
  have first: "nextLine (bodyScan ?st 5) = 2 \<and> auto_closed (bodyScan ?st 5)
      \<and> line (fst (snd (frontMatter ?st 0 5 False))) = 3"
    by (simp only: numeral_3_eq_3 numeral_2_eq_2) blast
  from closing_fence_accepted [OF o k1 a1 w1 n1] c1
  have second: "1 < nextLine (bodyScan ?st 5)" by blast
  from o w2 n2 c2 first w1 n1 c1 second show ?thesis by blast
qed

text \<open>
  C6. The claim: with a valid opening fence and no valid closing line before the bound,
  the block is closed at the bound. A line of three full stops ends the scan earlier:
  here the bound is 5, no line is a closing fence, and the scan leaves the state at
  line 3.
\<close>

theorem auto_close_counterexample:
  "fst (frontMatter (StateBlock ''---\<newline>a\<newline>...\<newline>b\<newline>c'') 0 5 True)
   \<and> lineMax (StateBlock ''---\<newline>a\<newline>...\<newline>b\<newline>c'') = 5
   \<and> \<not> closingFence (StateBlock ''---\<newline>a\<newline>...\<newline>b\<newline>c'')
          (markerCount (StateBlock ''---\<newline>a\<newline>...\<newline>b\<newline>c'')) 1
   \<and> \<not> closingFence (StateBlock ''---\<newline>a\<newline>...\<newline>b\<newline>c'')
          (markerCount (StateBlock ''---\<newline>a\<newline>...\<newline>b\<newline>c'')) 2
   \<and> \<not> closingFence (StateBlock ''---\<newline>a\<newline>...\<newline>b\<newline>c'')
          (markerCount (StateBlock ''---\<newline>a\<newline>...\<newline>b\<newline>c'')) 3
   \<and> \<not> closingFence (StateBlock ''---\<newline>a\<newline>...\<newline>b\<newline>c'')
          (markerCount (StateBlock ''---\<newline>a\<newline>...\<newline>b\<newline>c'')) 4
   \<and> line (fst (snd (frontMatter (StateBlock ''---\<newline>a\<newline>...\<newline>b\<newline>c'') 0 5 False))) = 3"
  by code_simp

text \<open>
  C6, as amended. With a valid opening fence at line 0 and a bound above 0, if every line
  between the opening line and the bound is well formed, is no closing fence, is not a
  non-empty line indented less than the enclosing block, and has a content other than
  three full stops, then the scan (a total function: the loop ends) reports a match,
  emits one token and leaves the state's line at the bound.
\<close>

theorem auto_close_at_bound:
  assumes "fst (frontMatter st 0 endLine True)"
      and "0 < endLine"
      and "\<forall>n. 0 < n \<and> n < endLine \<longrightarrow>
             wfLine st n \<and> \<not> closingFence st (markerCount st) n
             \<and> \<not> negativeIndent st n \<and> lineText st n \<noteq> ''...''"
  shows "fst (frontMatter st 0 endLine False)
       \<and> line (fst (snd (frontMatter st 0 endLine False))) = endLine
       \<and> length (tokens (fst (snd (frontMatter st 0 endLine False))))
           = Suc (length (tokens st))"
proof -
  from frontMatter_scan [OF assms(1)] obtain sc0 p where
    fm: "frontMatter st 0 endLine False =
           emitToken st 0 sc0
             (scanBody st endLine (markerCount st)
                \<lparr> nextLine = 0, start = lineStart st 0, max_pos = eMarks st ! 0, pos = p,
                  auto_closed = False \<rparr>)"
    by blast
  let ?sc = "\<lparr> nextLine = 0, start = lineStart st 0, max_pos = eMarks st ! 0, pos = p,
                auto_closed = False \<rparr>"
  from assms(1) have "3 \<le> markerCount st" by (simp add: frontMatter_silent)
  then have nd: "js_slice (src st) (int (start ?sc)) (int (max_pos ?sc)) \<noteq> ''...''"
    by (simp add: opening_not_dots)
  have ord: "\<forall>n. nextLine ?sc < n \<and> n < endLine \<longrightarrow> ordinaryLine st (markerCount st) n"
    using assms(3) by (simp add: ordinaryLine_def)
  have lt: "nextLine ?sc < endLine" using assms(2) by simp
  from scan_through [OF ord lt order_refl nd] obtain sc' where
    eq: "scanBody st endLine (markerCount st) ?sc = scanBody st endLine (markerCount st) sc'"
    and nl: "Suc (nextLine sc') = endLine" and ac: "auto_closed sc' = auto_closed ?sc"
    by blast
  from nl have "scanBody st endLine (markerCount st) sc' = sc' \<lparr> nextLine := Suc (nextLine sc') \<rparr>"
    by (simp add: scanBody_stop)
  with eq nl ac have
    "nextLine (scanBody st endLine (markerCount st) ?sc) = endLine"
    "\<not> auto_closed (scanBody st endLine (markerCount st) ?sc)"
    by simp_all
  then show ?thesis by (simp add: fm emitToken_frame emitToken_line)
qed

theorem auto_close_at_bound_witness:
  "fst (frontMatter (StateBlock ''---\<newline>a\<newline>b'') 0 3 True)
   \<and> wfLine (StateBlock ''---\<newline>a\<newline>b'') 1 \<and> wfLine (StateBlock ''---\<newline>a\<newline>b'') 2
   \<and> \<not> closingFence (StateBlock ''---\<newline>a\<newline>b'') (markerCount (StateBlock ''---\<newline>a\<newline>b'')) 1
   \<and> \<not> closingFence (StateBlock ''---\<newline>a\<newline>b'') (markerCount (StateBlock ''---\<newline>a\<newline>b'')) 2
   \<and> fst (frontMatter (StateBlock ''---\<newline>a\<newline>b'') 0 3 False)
   \<and> line (fst (snd (frontMatter (StateBlock ''---\<newline>a\<newline>b'') 0 3 False))) = 3"
proof -
  let ?st = "StateBlock ''---\<newline>a\<newline>b''"
  have o: "fst (frontMatter ?st 0 3 True)" by code_simp
  have l1: "wfLine ?st 1 \<and> \<not> closingFence ?st (markerCount ?st) 1
      \<and> \<not> negativeIndent ?st 1 \<and> lineText ?st 1 \<noteq> ''...''"
    by code_simp
  have l2: "wfLine ?st 2 \<and> \<not> closingFence ?st (markerCount ?st) 2
      \<and> \<not> negativeIndent ?st 2 \<and> lineText ?st 2 \<noteq> ''...''"
    by code_simp
  have c: "\<And>n::nat. 0 < n \<and> n < 3 \<Longrightarrow> n = 1 \<or> n = 2" by arith
  have a: "\<forall>n. 0 < n \<and> n < 3 \<longrightarrow>
             wfLine ?st n \<and> \<not> closingFence ?st (markerCount ?st) n
             \<and> \<not> negativeIndent ?st n \<and> lineText ?st n \<noteq> ''...''"
    using l1 l2 c by blast
  have b: "(0::nat) < 3" by simp
  from auto_close_at_bound [OF o b a] o l1 l2 show ?thesis by blast
qed

text \<open>
  C10. The claim: a body line whose content is three full stops ends the block, as the
  last line consumed, and the next rule resumes on the line after it. It fails for such
  a line when it is a non-empty line indented less than the enclosing block. The state
  below is the one the list rule of markdown-it builds for a list item that starts on
  line 0 with three markers (the content of the item starts at column 2, which is the
  block indent and the indent of line 0): line 2 is three full stops at column 0, the
  scan stops when it comes to it, and the state's line is 2, not 3.
\<close>

theorem dots_line_counterexample:
  "fst (frontMatter
         ((StateBlock ''- ---x\<newline>  a\<newline>...\<newline>b'')
            \<lparr> tShift := [2, 2, 0, 0, 0], sCount := [2, 2, 0, 0, 0], blkIndent := 2 \<rparr>) 0 4 True)
   \<and> lineText
         ((StateBlock ''- ---x\<newline>  a\<newline>...\<newline>b'')
            \<lparr> tShift := [2, 2, 0, 0, 0], sCount := [2, 2, 0, 0, 0], blkIndent := 2 \<rparr>) 2 = ''...''
   \<and> lineText
         ((StateBlock ''- ---x\<newline>  a\<newline>...\<newline>b'')
            \<lparr> tShift := [2, 2, 0, 0, 0], sCount := [2, 2, 0, 0, 0], blkIndent := 2 \<rparr>) 1 \<noteq> ''...''
   \<and> \<not> negativeIndent
         ((StateBlock ''- ---x\<newline>  a\<newline>...\<newline>b'')
            \<lparr> tShift := [2, 2, 0, 0, 0], sCount := [2, 2, 0, 0, 0], blkIndent := 2 \<rparr>) 1
   \<and> nextLine (bodyScan
         ((StateBlock ''- ---x\<newline>  a\<newline>...\<newline>b'')
            \<lparr> tShift := [2, 2, 0, 0, 0], sCount := [2, 2, 0, 0, 0], blkIndent := 2 \<rparr>) 4) = 2
   \<and> line (fst (snd (frontMatter
         ((StateBlock ''- ---x\<newline>  a\<newline>...\<newline>b'')
            \<lparr> tShift := [2, 2, 0, 0, 0], sCount := [2, 2, 0, 0, 0], blkIndent := 2 \<rparr>) 0 4 False))) = 2"
  by code_simp

text \<open>
  C10, as amended. With a valid opening fence, let line \<open>k\<close> be below the bound, with
  three full stops as its content, and examined by the scan: every body line before it
  is passed over (it is well formed, is no closing fence, is not a non-empty line
  indented less than the enclosing block, and its content is not three full stops), and
  line \<open>k\<close> is not itself a non-empty line indented less than the enclosing block. Its
  first character is not the marker, so it is no closing fence; the scan goes past it
  and ends at the next turn of the loop, where the content of the line just examined is
  compared with three full stops (or at the bound, with the same outcome): the scan
  reports a match, \<^verbatim>\<open>auto_closed\<close> stays unset, and the state's line is the line after
  \<open>k\<close>.
\<close>

theorem dots_line_ends_block:
  assumes "fst (frontMatter st 0 endLine True)"
      and "0 < k" and "k < endLine"
      and "\<forall>n. 0 < n \<and> n < k \<longrightarrow>
             wfLine st n \<and> \<not> closingFence st (markerCount st) n
             \<and> \<not> negativeIndent st n \<and> lineText st n \<noteq> ''...''"
      and "lineText st k = ''...''"
      and "\<not> negativeIndent st k"
  shows "charAt (src st) (lineStart st k) \<noteq> Some marker_char
       \<and> \<not> closingFence st (markerCount st) k
       \<and> fst (frontMatter st 0 endLine False)
       \<and> line (fst (snd (frontMatter st 0 endLine False))) = Suc k"
proof -
  from frontMatter_scan [OF assms(1)] obtain sc0 p where
    fm: "frontMatter st 0 endLine False =
           emitToken st 0 sc0
             (scanBody st endLine (markerCount st)
                \<lparr> nextLine = 0, start = lineStart st 0, max_pos = eMarks st ! 0, pos = p,
                  auto_closed = False \<rparr>)"
    by blast
  let ?mc = "markerCount st"
  let ?sc = "\<lparr> nextLine = 0, start = lineStart st 0, max_pos = eMarks st ! 0, pos = p,
                auto_closed = False \<rparr>"
  from assms(5) have dot: "charAt (src st) (lineStart st k) = Some CHR ''.''"
    unfolding lineText_def by (rule slice_dots_first)
  then have nm: "charAt (src st) (lineStart st k) \<noteq> Some marker_char" by simp
  then have ncf: "\<not> closingFence st ?mc k" by (simp add: closingFence_def)
  from assms(1) have "3 \<le> markerCount st" by (simp add: frontMatter_silent)
  then have nd: "js_slice (src st) (int (start ?sc)) (int (max_pos ?sc)) \<noteq> ''...''"
    by (simp add: opening_not_dots)
  have ord: "\<forall>n. nextLine ?sc < n \<and> n < k \<longrightarrow> ordinaryLine st ?mc n"
    using assms(4) by (simp add: ordinaryLine_def)
  have lt: "nextLine ?sc < k" using assms(2) by simp
  have le: "k \<le> endLine" using assms(3) by simp
  from scan_through [OF ord lt le nd] obtain sc' where
    eq: "scanBody st endLine ?mc ?sc = scanBody st endLine ?mc sc'"
    and nl: "Suc (nextLine sc') = k" and ac: "auto_closed sc' = auto_closed ?sc"
    and nd': "js_slice (src st) (int (start sc')) (int (max_pos sc')) \<noteq> ''...''"
    by blast
  let ?sc2 = "\<lparr> nextLine = k, start = lineStart st k, max_pos = eMarks st ! k,
       pos = snd (fenceCheck st ?mc k (lineStart st k) (eMarks st ! k) (pos sc')),
       auto_closed = auto_closed sc' \<rparr>"
  from nm have nf: "\<not> fst (fenceCheck st ?mc k (lineStart st k) (eMarks st ! k) (pos sc'))"
    by (simp add: fenceCheck_def)
  have step: "scanBody st endLine ?mc sc' = scanBody st endLine ?mc ?sc2"
    using scanBody_continue [of sc' endLine st ?mc] nl assms(3) nd' assms(6) nf by simp
  have "js_slice (src st) (int (start ?sc2)) (int (max_pos ?sc2)) = ''...''"
    using assms(5) by (simp add: lineText_def)
  then have "scanBody st endLine ?mc ?sc2 = ?sc2 \<lparr> nextLine := Suc (nextLine ?sc2) \<rparr>"
    by (simp add: scanBody_stop)
  with eq step ac have
    "nextLine (scanBody st endLine ?mc ?sc) = Suc k"
    "\<not> auto_closed (scanBody st endLine ?mc ?sc)"
    by simp_all
  with nm ncf show ?thesis by (simp add: fm emitToken_frame emitToken_line)
qed

theorem dots_line_ends_block_witness:
  "fst (frontMatter (StateBlock ''---\<newline>a\<newline>...\<newline>b\<newline>c'') 0 5 True)
   \<and> lineText (StateBlock ''---\<newline>a\<newline>...\<newline>b\<newline>c'') 2 = ''...''
   \<and> \<not> negativeIndent (StateBlock ''---\<newline>a\<newline>...\<newline>b\<newline>c'') 2
   \<and> fst (frontMatter (StateBlock ''---\<newline>a\<newline>...\<newline>b\<newline>c'') 0 5 False)
   \<and> line (fst (snd (frontMatter (StateBlock ''---\<newline>a\<newline>...\<newline>b\<newline>c'') 0 5 False))) = 3"
proof -
  let ?st = "StateBlock ''---\<newline>a\<newline>...\<newline>b\<newline>c''"
  have o: "fst (frontMatter ?st 0 5 True)" by code_simp
  have l1: "wfLine ?st 1 \<and> \<not> closingFence ?st (markerCount ?st) 1
      \<and> \<not> negativeIndent ?st 1 \<and> lineText ?st 1 \<noteq> ''...''"
    by code_simp
  have c: "\<And>n::nat. 0 < n \<and> n < 2 \<Longrightarrow> n = 1" by arith
  have a: "\<forall>n. 0 < n \<and> n < 2 \<longrightarrow>
             wfLine ?st n \<and> \<not> closingFence ?st (markerCount ?st) n
             \<and> \<not> negativeIndent ?st n \<and> lineText ?st n \<noteq> ''...''"
    using l1 c by blast
  have t: "lineText ?st 2 = ''...''" by code_simp
  have n: "\<not> negativeIndent ?st 2" by code_simp
  have k0: "(0::nat) < 2" and k5: "(2::nat) < 5" by simp_all
  from dots_line_ends_block [OF o k0 k5 a t n] o t n show ?thesis
    by (simp only: numeral_3_eq_3 numeral_2_eq_2) blast
qed

end
